theory Spec2Isabelle
  imports Complex_Main "HOL-Library.Char_ord" "HOL-Library.List_Lexorder"
    "HOL-Library.Product_Lexorder"
begin

section \<open>Data model\<close>

text \<open>
  One raw fact record, a JSON object of the filings API. \<open>form\<close> and \<open>fp\<close> are read with
  \<open>.get\<close> (a missing key is \<open>None\<close>); \<open>start\<close> is tested with \<open>in\<close> and may be absent;
  \<open>fy\<close>, \<open>end\<close>, \<open>filed\<close> and \<open>val\<close> are the fields every record carries. Dates are the
  strings of the JSON document, exactly as the code receives them. Values are exact reals
  (the rounding of binary floating point is not modelled).
\<close>

record filing =
  form :: "string option"
  fp :: "string option"
  fy :: int
  start :: "string option"
  end_date :: string
  filed :: string
  val :: real

text \<open>A concept of the taxonomy: its \<open>units\<close> dictionary maps a unit name to its records.\<close>

record concept =
  label :: string
  units :: "string \<rightharpoonup> filing list"

text \<open>The company document: \<open>facts\<close> maps a taxonomy name to its concepts.\<close>

record company_facts =
  entityName :: string
  cik :: int
  facts :: "string \<rightharpoonup> (string \<rightharpoonup> concept)"

text \<open>The exceptions the code can raise on such an input.\<close>

datatype py_error = KeyError string | ValueError | IndexError

section \<open>Dates: \<open>datetime.strptime(s, '%Y-%m-%d')\<close>\<close>

record pydate =
  d_year :: int
  d_month :: int
  d_day :: int

definition digit_of :: "char \<Rightarrow> int option" where
  "digit_of c = map_of
     [(CHR ''0'', 0), (CHR ''1'', 1), (CHR ''2'', 2), (CHR ''3'', 3), (CHR ''4'', 4),
      (CHR ''5'', 5), (CHR ''6'', 6), (CHR ''7'', 7), (CHR ''8'', 8), (CHR ''9'', 9)] c"

text \<open>\<open>%Y\<close> is exactly four digits.\<close>

fun parse_Y :: "string \<Rightarrow> int option" where
  "parse_Y [a, b, c, d] =
     (case (digit_of a, digit_of b, digit_of c, digit_of d) of
        (Some p, Some q, Some r, Some s) \<Rightarrow> Some (1000 * p + 100 * q + 10 * r + s)
      | _ \<Rightarrow> None)"
| "parse_Y _ = None"

text \<open>\<open>%m\<close> is \<open>1[0-2]|0[1-9]|[1-9]\<close>: a month 1..12 in one or two digits.\<close>

fun parse_m :: "string \<Rightarrow> int option" where
  "parse_m [a] = (case digit_of a of Some p \<Rightarrow> (if 1 \<le> p then Some p else None) | None \<Rightarrow> None)"
| "parse_m [a, b] =
     (case (digit_of a, digit_of b) of
        (Some p, Some q) \<Rightarrow> (if 1 \<le> 10 * p + q \<and> 10 * p + q \<le> 12 then Some (10 * p + q) else None)
      | _ \<Rightarrow> None)"
| "parse_m _ = None"

text \<open>\<open>%d\<close> is \<open>3[0-1]|[1-2]\d|0[1-9]|[1-9]| [1-9]\<close>: a day 1..31, one digit, two digits,
  or a space and one digit.\<close>

fun parse_d :: "string \<Rightarrow> int option" where
  "parse_d [a] = (case digit_of a of Some p \<Rightarrow> (if 1 \<le> p then Some p else None) | None \<Rightarrow> None)"
| "parse_d [a, b] =
     (if a = CHR '' '' then
        (case digit_of b of Some q \<Rightarrow> (if 1 \<le> q then Some q else None) | None \<Rightarrow> None)
      else
        (case (digit_of a, digit_of b) of
           (Some p, Some q) \<Rightarrow> (if 1 \<le> 10 * p + q \<and> 10 * p + q \<le> 31 then Some (10 * p + q) else None)
         | _ \<Rightarrow> None))"
| "parse_d _ = None"

definition is_leap :: "int \<Rightarrow> bool" where
  "is_leap y = (y mod 4 = 0 \<and> (y mod 100 \<noteq> 0 \<or> y mod 400 = 0))"

definition days_in_month :: "int \<Rightarrow> int \<Rightarrow> int" where
  "days_in_month y m =
     (if m = 2 then (if is_leap y then 29 else 28)
      else if m = 4 \<or> m = 6 \<or> m = 9 \<or> m = 11 then 30 else 31)"

definition days_before_year :: "int \<Rightarrow> int" where
  "days_before_year y = (y - 1) * 365 + (y - 1) div 4 - (y - 1) div 100 + (y - 1) div 400"

definition days_before_month :: "int \<Rightarrow> int \<Rightarrow> int" where
  "days_before_month y m =
     (case map_of [(1, 0), (2, 31), (3, 59), (4, 90), (5, 120), (6, 151), (7, 181),
                   (8, 212), (9, 243), (10, 273), (11, 304), (12, 334)] m of
        Some n \<Rightarrow> n + (if 2 < m \<and> is_leap y then 1 else 0)
      | None \<Rightarrow> 0)"

definition toordinal :: "pydate \<Rightarrow> int" where
  "toordinal d = days_before_year (d_year d) + days_before_month (d_year d) (d_month d) + d_day d"

text \<open>
  The format is matched against the whole string; a string that does not match, has
  text left over, or names a day that the month does not have (or the year 0) raises
  \<open>ValueError\<close>.
\<close>

definition strptime :: "string \<Rightarrow> py_error + pydate" where
  "strptime s =
     (case parse_Y (take 4 s) of
        None \<Rightarrow> Inl ValueError
      | Some y \<Rightarrow>
          (case drop 4 s of
             [] \<Rightarrow> Inl ValueError
           | c # rest \<Rightarrow>
               if c \<noteq> CHR ''-'' then Inl ValueError
               else
                 (case (parse_m (takeWhile (\<lambda>x. x \<noteq> CHR ''-'') rest),
                        dropWhile (\<lambda>x. x \<noteq> CHR ''-'') rest) of
                    (Some m, _ # ds) \<Rightarrow>
                      (case parse_d ds of
                         Some d \<Rightarrow>
                           if 1 \<le> y \<and> d \<le> days_in_month y m
                           then Inr \<lparr>d_year = y, d_month = m, d_day = d\<rparr>
                           else Inl ValueError
                       | None \<Rightarrow> Inl ValueError)
                  | _ \<Rightarrow> Inl ValueError)))"

section \<open>\<open>extract_metric\<close> (step2.py)\<close>

text \<open>\<open>data['facts']['us-gaap'][metric_name]['units']['USD']\<close>: a missing key raises
  \<open>KeyError\<close> carrying that key.\<close>

definition lookup_filings :: "company_facts \<Rightarrow> string \<Rightarrow> py_error + filing list" where
  "lookup_filings data metric_name =
     (case facts data ''us-gaap'' of
        None \<Rightarrow> Inl (KeyError ''us-gaap'')
      | Some gaap \<Rightarrow>
          (case gaap metric_name of
             None \<Rightarrow> Inl (KeyError metric_name)
           | Some c \<Rightarrow>
               (case units c ''USD'' of
                  None \<Rightarrow> Inl (KeyError ''USD'')
                | Some filings \<Rightarrow> Inr filings)))"

definition is_annual :: "filing \<Rightarrow> bool" where
  "is_annual f = (form f = Some ''10-K'' \<and> fp f = Some ''FY'')"

text \<open>
  \<open>by_year\<close> is a \<open>defaultdict(list)\<close>: a dictionary in insertion order, here a list of
  (key, records) pairs. \<open>by_year[k].append(f)\<close> appends to the entry of \<open>k\<close>, creating
  it at the end when \<open>k\<close> is new.
\<close>

fun append_to :: "int \<Rightarrow> filing \<Rightarrow> (int \<times> filing list) list \<Rightarrow> (int \<times> filing list) list" where
  "append_to k f [] = [(k, [f])]"
| "append_to k f ((k', fs) # rest) =
     (if k = k' then (k', fs @ [f]) # rest else (k', fs) # append_to k f rest)"

fun group_by_year :: "filing list \<Rightarrow> (int \<times> filing list) list \<Rightarrow> (int \<times> filing list) list" where
  "group_by_year [] by_year = by_year"
| "group_by_year (filing # rest) by_year = group_by_year rest (append_to (fy filing) filing by_year)"

text \<open>\<open>by_year[year]\<close>: a key that is not there reads as the empty list.\<close>

definition get_year :: "(int \<times> filing list) list \<Rightarrow> int \<Rightarrow> filing list" where
  "get_year by_year year = (case map_of by_year year of None \<Rightarrow> [] | Some fs \<Rightarrow> fs)"

text \<open>The inner loop of the duration branch, building \<open>candidates\<close> as triples
  \<open>(filing, score, -days)\<close>.\<close>

fun candidates_loop ::
  "int \<Rightarrow> filing list \<Rightarrow> (filing \<times> int \<times> int) list \<Rightarrow> py_error + (filing \<times> int \<times> int) list" where
  "candidates_loop year [] candidates = Inr candidates"
| "candidates_loop year (filing # rest) candidates =
     (case start filing of
        None \<Rightarrow> Inl (KeyError ''start'')
      | Some s \<Rightarrow>
          (case strptime s of
             Inl e \<Rightarrow> Inl e
           | Inr st \<Rightarrow>
               (case strptime (end_date filing) of
                  Inl e \<Rightarrow> Inl e
                | Inr en \<Rightarrow>
                    (let days = toordinal en - toordinal st in
                     if 350 \<le> days \<and> year - 1 \<le> d_year st \<and> year - 1 \<le> d_year en
                     then candidates_loop year rest
                            (candidates @ [(filing, \<bar>d_year en - year\<bar>, - days)])
                     else candidates_loop year rest candidates))))"

text \<open>\<open>max(xs, key=k)\<close> keeps the element it holds unless a later one is strictly
  greater, so the first maximal element wins.\<close>

fun max_loop :: "('a \<Rightarrow> 'k::linorder) \<Rightarrow> 'a \<Rightarrow> 'a list \<Rightarrow> 'a" where
  "max_loop k best [] = best"
| "max_loop k best (x # xs) = max_loop k (if k best < k x then x else best) xs"

definition py_max :: "('a \<Rightarrow> 'k::linorder) \<Rightarrow> 'a list \<Rightarrow> py_error + 'a" where
  "py_max k xs = (case xs of [] \<Rightarrow> Inl ValueError | x # rest \<Rightarrow> Inr (max_loop k x rest))"

text \<open>The body of the loop over the years, as a function of the group \<open>by_year[year]\<close>:
  what one year appends to \<open>results\<close>. \<open>by_year[year][0]\<close> on an empty list raises
  \<open>IndexError\<close>.\<close>

definition resolve_group :: "int \<Rightarrow> filing list \<Rightarrow> py_error + filing list" where
  "resolve_group year grp =
     (case grp of
        [] \<Rightarrow> Inl IndexError
      | first # _ \<Rightarrow>
          (let has_start_date = (start first \<noteq> None) in
           if has_start_date then
             (case candidates_loop year grp [] of
                Inl e \<Rightarrow> Inl e
              | Inr candidates \<Rightarrow>
                  (case sort_key (\<lambda>x. (fst (snd x), snd (snd x))) candidates of
                     [] \<Rightarrow> Inr []
                   | c # _ \<Rightarrow> Inr [fst c]))
           else
             (case py_max filed grp of
                Inl e \<Rightarrow> Inl e
              | Inr most_recent \<Rightarrow> Inr [most_recent])))"

fun years_loop ::
  "(int \<times> filing list) list \<Rightarrow> int list \<Rightarrow> filing list \<Rightarrow> py_error + filing list" where
  "years_loop by_year [] results = Inr results"
| "years_loop by_year (year # years) results =
     (case resolve_group year (get_year by_year year) of
        Inl e \<Rightarrow> Inl e
      | Inr r \<Rightarrow> years_loop by_year years (results @ r))"

text \<open>The \<open>try\<close> block.\<close>

definition extract_metric_try :: "company_facts \<Rightarrow> string \<Rightarrow> py_error + filing list" where
  "extract_metric_try data metric_name =
     (case lookup_filings data metric_name of
        Inl e \<Rightarrow> Inl e
      | Inr filings \<Rightarrow>
          (let annual = filter is_annual filings;
               by_year = group_by_year annual []
           in years_loop by_year (sort (map fst by_year)) []))"

text \<open>\<open>except (KeyError, TypeError)\<close>: a \<open>KeyError\<close> becomes the empty result; any other
  exception leaves the function.\<close>

definition extract_metric :: "company_facts \<Rightarrow> string \<Rightarrow> py_error + filing list" where
  "extract_metric data metric_name =
     (case extract_metric_try data metric_name of
        Inl (KeyError k) \<Rightarrow> Inr []
      | Inl e \<Rightarrow> Inl e
      | Inr results \<Rightarrow> Inr results)"

section \<open>The resolution in the words of the specification\<close>

text \<open>
  The period of a record, when the record has a start date and both date strings can be
  read; the quantities the eligibility test and the score are written in.
\<close>

definition period_of :: "filing \<Rightarrow> (pydate \<times> pydate) option" where
  "period_of f =
     (case start f of
        None \<Rightarrow> None
      | Some s \<Rightarrow>
          (case (strptime s, strptime (end_date f)) of
             (Inr st, Inr en) \<Rightarrow> Some (st, en)
           | _ \<Rightarrow> None))"

definition duration_days :: "filing \<Rightarrow> int" where
  "duration_days f = (case period_of f of None \<Rightarrow> 0 | Some (st, en) \<Rightarrow> toordinal en - toordinal st)"

definition start_year :: "filing \<Rightarrow> int" where
  "start_year f = (case period_of f of None \<Rightarrow> 0 | Some (st, en) \<Rightarrow> d_year st)"

definition end_year :: "filing \<Rightarrow> int" where
  "end_year f = (case period_of f of None \<Rightarrow> 0 | Some (st, en) \<Rightarrow> d_year en)"

text \<open>Eligibility of a duration record for a fiscal year: at least 350 days, and both
  calendar years at least the fiscal year minus one.\<close>

definition eligible :: "int \<Rightarrow> filing \<Rightarrow> bool" where
  "eligible fiscalYear f =
     (period_of f \<noteq> None \<and> 350 \<le> duration_days f \<and>
      fiscalYear - 1 \<le> start_year f \<and> fiscalYear - 1 \<le> end_year f)"

text \<open>The score tuple \<open>(|periodEnd.year - fiscalYear|, -durationDays)\<close>, compared
  lexicographically.\<close>

definition score :: "int \<Rightarrow> filing \<Rightarrow> int \<times> int" where
  "score fiscalYear f = (\<bar>end_year f - fiscalYear\<bar>, - duration_days f)"

definition candidate_of :: "int \<Rightarrow> filing \<Rightarrow> filing \<times> int \<times> int" where
  "candidate_of year f = (f, fst (score year f), snd (score year f))"

text \<open>
  The date a string of the form \<open>YYYY-MM-DD\<close> (ten characters, digits around two
  hyphens) stands for, as year, month and day; triples are compared lexicographically,
  that is, chronologically.
\<close>

definition digit_step :: "int \<Rightarrow> char \<Rightarrow> int" where
  "digit_step n c = 10 * n + (case digit_of c of Some d \<Rightarrow> d | None \<Rightarrow> 0)"

definition digits_val :: "string \<Rightarrow> int" where
  "digits_val s = foldl digit_step 0 s"

definition iso_key :: "string \<Rightarrow> (int \<times> int \<times> int) option" where
  "iso_key s =
     (if length s = 10 \<and> s ! 4 = CHR ''-'' \<and> s ! 7 = CHR ''-'' \<and>
         list_all (\<lambda>c. digit_of c \<noteq> None) (take 4 s @ take 2 (drop 5 s) @ drop 8 s)
      then Some (digits_val (take 4 s), digits_val (take 2 (drop 5 s)), digits_val (drop 8 s))
      else None)"


text \<open>Duration-typed resolution: the first record that cannot be read stops it; otherwise
  the first eligible record of least score, none when no record is eligible.\<close>

definition duration_resolution :: "int \<Rightarrow> filing list \<Rightarrow> py_error + filing list" where
  "duration_resolution fiscalYear grp =
     (case find (\<lambda>f. period_of f = None) grp of
        Some bad \<Rightarrow> Inl (if start bad = None then KeyError ''start'' else ValueError)
      | None \<Rightarrow>
          (case filter (\<lambda>r. eligible fiscalYear r \<and>
                   (\<forall>f \<in> set grp. eligible fiscalYear f \<longrightarrow> score fiscalYear r \<le> score fiscalYear f)) grp of
             [] \<Rightarrow> Inr []
           | r # _ \<Rightarrow> Inr [r]))"

text \<open>A record with its start date taken away.\<close>

definition without_start :: "filing \<Rightarrow> filing" where
  "without_start f = f\<lparr>start := None\<rparr>"

section \<open>Example inputs\<close>

definition annual_report :: "int \<Rightarrow> string option \<Rightarrow> string \<Rightarrow> string \<Rightarrow> real \<Rightarrow> filing" where
  "annual_report y s e fd v =
     \<lparr>form = Some ''10-K'', fp = Some ''FY'', fy = y, start = s, end_date = e, filed = fd, val = v\<rparr>"

text \<open>Fiscal year 2019 of a duration metric: a quarter, 364 days, 371 days, a stale
  comparative period, and a longer period that ends in 2020.\<close>

definition ex_quarter :: filing where
  "ex_quarter = annual_report 2019 (Some ''2019-01-01'') ''2019-03-31'' ''2020-02-01'' 10"

definition ex_364 :: filing where
  "ex_364 = annual_report 2019 (Some ''2019-01-01'') ''2019-12-31'' ''2020-02-01'' 364"

definition ex_371 :: filing where
  "ex_371 = annual_report 2019 (Some ''2018-12-25'') ''2019-12-31'' ''2020-02-01'' 371"

definition ex_stale :: filing where
  "ex_stale = annual_report 2019 (Some ''2017-01-01'') ''2017-12-31'' ''2020-02-01'' 17"

definition ex_next :: filing where
  "ex_next = annual_report 2019 (Some ''2019-01-05'') ''2020-01-20'' ''2020-02-01'' 380"

text \<open>A record of fiscal year 2020 that spans 200 days.\<close>

definition ex_200 :: filing where
  "ex_200 = annual_report 2020 (Some ''2020-01-01'') ''2020-07-19'' ''2021-02-01'' 55"

text \<open>Fiscal year 2022 of an instant metric, filed three times.\<close>

definition ex_first_filed :: filing where
  "ex_first_filed = annual_report 2022 None ''2021-12-31'' ''2022-02-01'' 100"

definition ex_restated :: filing where
  "ex_restated = annual_report 2022 None ''2021-12-31'' ''2023-01-15'' 120"

definition ex_amended :: filing where
  "ex_amended = annual_report 2022 None ''2021-12-31'' ''2022-03-01'' 110"

text \<open>The same date filed twice, and a record of another year in between.\<close>

definition ex_tie_a :: filing where
  "ex_tie_a = annual_report 2022 None ''2021-12-31'' ''2023-01-15'' 7"

definition ex_tie_b :: filing where
  "ex_tie_b = annual_report 2022 None ''2021-12-31'' ''2023-01-15'' 8"

definition ex_other_year :: filing where
  "ex_other_year = annual_report 2021 None ''2020-12-31'' ''2023-06-30'' 9"

definition ex_2019 :: filing where
  "ex_2019 = annual_report 2019 (Some ''2019-01-01'') ''2019-12-31'' ''2020-02-01'' 100"

definition ex_2021 :: filing where
  "ex_2021 = annual_report 2021 (Some ''2021-01-01'') ''2021-12-31'' ''2022-02-01'' 300"

definition ex_bad_month :: filing where
  "ex_bad_month = annual_report 2019 (Some ''2019-13-01'') ''2019-12-31'' ''2020-03-01'' 101"

definition ex_q1_report :: filing where
  "ex_q1_report =
     \<lparr>form = Some ''10-Q'', fp = Some ''Q1'', fy = 2021, start = Some ''2021-01-01'',
      end_date = ''2021-03-31'', filed = ''2021-05-01'', val = 70\<rparr>"

definition ex_facts :: company_facts where
  "ex_facts =
     \<lparr>entityName = ''EXAMPLE CORP'', cik = 2488,
      facts = [''us-gaap'' \<mapsto>
        [''NetIncomeLoss'' \<mapsto> \<lparr>label = ''Net Income (Loss)'',
            units = [''USD'' \<mapsto> [ex_2021, ex_2019, ex_200, ex_q1_report]]\<rparr>,
         ''Assets'' \<mapsto> \<lparr>label = ''Assets'',
            units = [''USD'' \<mapsto> [ex_first_filed, ex_restated, ex_amended]]\<rparr>,
         ''EarningsPerShareBasic'' \<mapsto> \<lparr>label = ''Earnings Per Share, Basic'',
            units = [''USD/shares'' \<mapsto> []]\<rparr>]]\<rparr>"

text \<open>The 371-day record without its start date, and the restated instant record with a
  start date added.\<close>

definition ex_371_no_start :: filing where
  "ex_371_no_start = annual_report 2019 None ''2019-12-31'' ''2020-02-01'' 371"

definition ex_restated_with_start :: filing where
  "ex_restated_with_start = annual_report 2022 (Some ''2021-01-01'') ''2021-12-31'' ''2023-01-15'' 120"

text \<open>A duration concept whose records all carry a start date, and the same concept with
  the start date missing from the second record of 2019.\<close>

definition ex_uniform_facts :: company_facts where
  "ex_uniform_facts =
     \<lparr>entityName = ''EXAMPLE CORP'', cik = 2488,
      facts = [''us-gaap'' \<mapsto>
        [''NetIncomeLoss'' \<mapsto> \<lparr>label = ''Net Income (Loss)'',
            units = [''USD'' \<mapsto> [ex_364, ex_371, ex_2021]]\<rparr>]]\<rparr>"

definition ex_mixed_facts :: company_facts where
  "ex_mixed_facts =
     \<lparr>entityName = ''EXAMPLE CORP'', cik = 2488,
      facts = [''us-gaap'' \<mapsto>
        [''NetIncomeLoss'' \<mapsto> \<lparr>label = ''Net Income (Loss)'',
            units = [''USD'' \<mapsto> [ex_364, ex_371_no_start, ex_2021]]\<rparr>]]\<rparr>"

text \<open>A duration concept with one record whose start date names a thirteenth month, and
  the same concept without that record.\<close>

definition ex_malformed_facts :: company_facts where
  "ex_malformed_facts =
     \<lparr>entityName = ''EXAMPLE CORP'', cik = 2488,
      facts = [''us-gaap'' \<mapsto>
        [''NetIncomeLoss'' \<mapsto> \<lparr>label = ''Net Income (Loss)'',
            units = [''USD'' \<mapsto> [ex_2019, ex_bad_month, ex_2021]]\<rparr>]]\<rparr>"

definition ex_skipped_facts :: company_facts where
  "ex_skipped_facts =
     \<lparr>entityName = ''EXAMPLE CORP'', cik = 2488,
      facts = [''us-gaap'' \<mapsto>
        [''NetIncomeLoss'' \<mapsto> \<lparr>label = ''Net Income (Loss)'',
            units = [''USD'' \<mapsto> [ex_2019, ex_2021]]\<rparr>]]\<rparr>"


section \<open>\<open>display_net_income\<close> (step2.py)\<close>

text \<open>
  One printed line: the year, the value in billions, the status, and the growth, where
  \<open>None\<close> is the line that prints \<open>N/A\<close> and \<open>Some g\<close> the line that prints \<open>g\<close> with a
  sign and one decimal.
\<close>

record display_row =
  row_year :: int
  row_val_b :: real
  row_status :: string
  row_growth :: "real option"

text \<open>\<open>if prev_val and prev_val != 0\<close>: both \<open>None\<close> and zero are false.\<close>

fun display_loop :: "real option \<Rightarrow> filing list \<Rightarrow> display_row list" where
  "display_loop prev_val [] = []"
| "display_loop prev_val (filing # rest) =
     (let year = fy filing;
          v = val filing;
          val_b = v / 1000000000;
          status = (if v > 0 then ''PROFIT'' else ''LOSS'');
          growth = (case prev_val of
                      None \<Rightarrow> None
                    | Some p \<Rightarrow> if p \<noteq> 0 then Some ((v - p) / \<bar>p\<bar> * 100) else None)
      in \<lparr>row_year = year, row_val_b = val_b, row_status = status, row_growth = growth\<rparr>
           # display_loop (Some v) rest)"

definition display_net_income :: "filing list \<Rightarrow> display_row list" where
  "display_net_income filings = display_loop None filings"

text \<open>The series \<open>[{2020, 100}, {2021, -50}, {2022, 0}, {2023, 40}]\<close>.\<close>

definition ex_series :: "filing list" where
  "ex_series =
     [annual_report 2020 (Some ''2020-01-01'') ''2020-12-31'' ''2021-02-01'' 100,
      annual_report 2021 (Some ''2021-01-01'') ''2021-12-31'' ''2022-02-01'' (- 50),
      annual_report 2022 (Some ''2022-01-01'') ''2022-12-31'' ''2023-02-01'' 0,
      annual_report 2023 (Some ''2023-01-01'') ''2023-12-31'' ''2024-02-01'' 40]"


section \<open>\<open>combine_metrics\<close> and \<open>display_summary\<close> (step3.py)\<close>

text \<open>
  A pandas table with the key column \<open>fiscal_year\<close> and one column per metric. The key
  column is the list of its values in row order; \<open>cells y n\<close> is the value of column \<open>n\<close>
  in the row of fiscal year \<open>y\<close>, where \<open>None\<close> is the missing value \<open>NaN\<close>. Every table
  built here has one row per fiscal year, since a resolved series has no year twice.
\<close>

record dataframe =
  columns :: "string list"
  fiscal_year :: "int list"
  cells :: "int \<Rightarrow> string \<Rightarrow> real option"

text \<open>\<open>pd.DataFrame(results)[['fy', 'val']]\<close> with the columns renamed to
  \<open>fiscal_year\<close> and the metric's name.\<close>

definition frame_of :: "string \<Rightarrow> filing list \<Rightarrow> dataframe" where
  "frame_of name results =
     \<lparr>columns = [name],
      fiscal_year = map fy results,
      cells = (\<lambda>y n. if n = name then map_of (map (\<lambda>f. (fy f, val f)) results) y else None)\<rparr>"

text \<open>
  \<open>a.merge(b, on='fiscal_year', how='outer')\<close>: the full outer join of the library. The
  keys of the result are the keys of either side, in ascending order; a column of a side
  that has no row for a key is \<open>NaN\<close> there.
\<close>

definition merge_outer :: "dataframe \<Rightarrow> dataframe \<Rightarrow> dataframe" where
  "merge_outer a b =
     \<lparr>columns = columns a @ columns b,
      fiscal_year = sort (remdups (fiscal_year a @ fiscal_year b)),
      cells = (\<lambda>y n. if n \<in> set (columns a)
                      then (if y \<in> set (fiscal_year a) then cells a y n else None)
                      else (if y \<in> set (fiscal_year b) then cells b y n else None))\<rparr>"

definition sort_values :: "dataframe \<Rightarrow> dataframe" where
  "sort_values df = df\<lparr>fiscal_year := sort (fiscal_year df)\<rparr>"

text \<open>\<open>METRICS\<close>, a dictionary in insertion order.\<close>

definition METRICS :: "(string \<times> string) list" where
  "METRICS =
     [(''net_income'', ''NetIncomeLoss''),
      (''revenue'', ''RevenueFromContractWithCustomerExcludingAssessedTax''),
      (''assets'', ''Assets'')]"

text \<open>The first loop of \<open>combine_metrics\<close>: a metric with an empty series adds no table;
  an exception of \<open>extract_metric\<close> leaves the function.\<close>

fun collect_frames ::
  "company_facts \<Rightarrow> (string \<times> string) list \<Rightarrow> dataframe list \<Rightarrow> py_error + dataframe list" where
  "collect_frames data [] dfs = Inr dfs"
| "collect_frames data ((name, concept) # rest) dfs =
     (case extract_metric data concept of
        Inl e \<Rightarrow> Inl e
      | Inr results \<Rightarrow>
          collect_frames data rest (if results \<noteq> [] then dfs @ [frame_of name results] else dfs))"

text \<open>\<open>combine_metrics\<close> returns \<open>None\<close> when no metric has data, and otherwise the tables
  merged from left to right and sorted by fiscal year.\<close>

definition combine_metrics ::
  "company_facts \<Rightarrow> (string \<times> string) list \<Rightarrow> py_error + dataframe option" where
  "combine_metrics data metrics =
     (case collect_frames data metrics [] of
        Inl e \<Rightarrow> Inl e
      | Inr [] \<Rightarrow> Inr None
      | Inr (d # ds) \<Rightarrow> Inr (Some (sort_values (foldl merge_outer d ds))))"

text \<open>\<open>df.tail(n)\<close>: the last \<open>n\<close> rows.\<close>

definition tail :: "nat \<Rightarrow> 'a list \<Rightarrow> 'a list" where
  "tail n xs = drop (length xs - n) xs"

text \<open>
  The result of \<open>(row['net_income'] / row['revenue']) * 100\<close> on floating-point cells: a
  number, an infinity (a non-zero value over zero), or \<open>NaN\<close> (a missing operand, or zero
  over zero). Finite results are exact reals here.
\<close>

datatype fnum = Num real | PosInf | NegInf | NaN

definition margin :: "real option \<Rightarrow> real option \<Rightarrow> fnum" where
  "margin net_income revenue =
     (case (net_income, revenue) of
        (Some a, Some b) \<Rightarrow>
          if b \<noteq> 0 then Num (a / b * 100)
          else if 0 < a then PosInf else if a < 0 then NegInf else NaN
      | _ \<Rightarrow> NaN)"

text \<open>The \<open>PROFIT MARGINS\<close> block of \<open>display_summary\<close>: the lines it prints, as pairs of
  the fiscal year and the margin.\<close>

definition display_summary_margins :: "dataframe \<Rightarrow> (int \<times> fnum) list" where
  "display_summary_margins df =
     (let recent = tail 5 (fiscal_year df) in
      if ''net_income'' \<in> set (columns df) \<and> ''revenue'' \<in> set (columns df)
      then map (\<lambda>y. (y, margin (cells df y ''net_income'') (cells df y ''revenue''))) recent
      else [])"

text \<open>The tables of the metrics that have data, in the order of the dictionary.\<close>

definition frames_of :: "company_facts \<Rightarrow> (string \<times> string) list \<Rightarrow> dataframe list" where
  "frames_of data metrics =
     concat (map (\<lambda>(name, concept).
        case extract_metric data concept of
          Inl e \<Rightarrow> []
        | Inr results \<Rightarrow> if results \<noteq> [] then [frame_of name results] else []) metrics)"

text \<open>Net income for fiscal years 2019 to 2021, revenue for 2020 to 2022.\<close>

definition ex_net_income_series :: "filing list" where
  "ex_net_income_series =
     [annual_report 2019 (Some ''2019-01-01'') ''2019-12-31'' ''2020-02-01'' 10,
      annual_report 2020 (Some ''2020-01-01'') ''2020-12-31'' ''2021-02-01'' 20,
      annual_report 2021 (Some ''2021-01-01'') ''2021-12-31'' ''2022-02-01'' 30]"

definition ex_revenue_series :: "filing list" where
  "ex_revenue_series =
     [annual_report 2020 (Some ''2020-01-01'') ''2020-12-31'' ''2021-02-01'' 200,
      annual_report 2021 (Some ''2021-01-01'') ''2021-12-31'' ''2022-02-01'' 300,
      annual_report 2022 (Some ''2022-01-01'') ''2022-12-31'' ''2023-02-01'' 400]"

definition ex_margin_facts :: company_facts where
  "ex_margin_facts =
     \<lparr>entityName = ''EXAMPLE CORP'', cik = 2488,
      facts = [''us-gaap'' \<mapsto>
        [''NetIncomeLoss'' \<mapsto>
           \<lparr>label = ''Net Income (Loss)'', units = [''USD'' \<mapsto> ex_net_income_series]\<rparr>,
         ''RevenueFromContractWithCustomerExcludingAssessedTax'' \<mapsto>
           \<lparr>label = ''Revenue'', units = [''USD'' \<mapsto> ex_revenue_series]\<rparr>]]\<rparr>"

section \<open>Grouping by fiscal year\<close>

lemma get_year_append_to:
  "get_year (append_to k f by_year) y =
     (if y = k then get_year by_year k @ [f] else get_year by_year y)"
  by (induction k f by_year rule: append_to.induct) (auto simp: get_year_def)

lemma keys_append_to:
  "fst ` set (append_to k f by_year) = insert k (fst ` set by_year)"
  by (induction k f by_year rule: append_to.induct) auto

lemma distinct_append_to:
  "distinct (map fst by_year) \<Longrightarrow> distinct (map fst (append_to k f by_year))"
proof (induction k f by_year rule: append_to.induct)
  case (1 k f)
  then show ?case by simp
next
  case (2 k f k' fs rest)
  have "fst ` set (append_to k f rest) = insert k (fst ` set rest)"
    by (rule keys_append_to)
  with 2 show ?case by auto
qed

lemma get_year_group_by_year:
  "get_year (group_by_year fs by_year) y = get_year by_year y @ filter (\<lambda>f. fy f = y) fs"
  by (induction fs arbitrary: by_year) (auto simp: get_year_append_to)

lemma keys_group_by_year:
  "fst ` set (group_by_year fs by_year) = fst ` set by_year \<union> fy ` set fs"
  by (induction fs arbitrary: by_year) (simp_all add: keys_append_to)

lemma distinct_group_by_year:
  "distinct (map fst by_year) \<Longrightarrow> distinct (map fst (group_by_year fs by_year))"
  by (induction fs arbitrary: by_year) (auto simp: distinct_append_to)

lemma get_year_Nil: "get_year [] y = []"
  by (simp add: get_year_def)

text \<open>The group of a year is the sublist of the filtered input with that fiscal year, in
  input order.\<close>

lemma get_year_grouped: "get_year (group_by_year fs []) y = filter (\<lambda>f. fy f = y) fs"
  by (simp add: get_year_group_by_year get_year_Nil)

lemma years_sorted: "sorted_wrt (<) (sort (map fst (group_by_year fs [])))"
  by (simp add: strict_sorted_iff distinct_group_by_year)

lemma years_set: "set (sort (map fst (group_by_year fs []))) = fy ` set fs"
  using keys_group_by_year [of fs "[]"] by simp

section \<open>The maximum by key\<close>

lemma max_loop_mem: "max_loop k best xs \<in> set (best # xs)"
  by (induction xs arbitrary: best) (auto split: if_splits)

lemma max_loop_ge_best: "k best \<le> k (max_loop k best xs)"
proof (induction xs arbitrary: best)
  case Nil
  then show ?case by simp
next
  case (Cons x xs)
  show ?case
  proof (cases "k best < k x")
    case True
    with Cons [of x] show ?thesis by simp
  next
    case False
    with Cons [of best] show ?thesis by simp
  qed
qed

lemma max_loop_ge: "x \<in> set (best # xs) \<Longrightarrow> k x \<le> k (max_loop k best xs)"
proof (induction xs arbitrary: best)
  case Nil
  then show ?case by simp
next
  case (Cons y ys)
  show ?case
  proof (cases "k best < k y")
    case True
    have "k y \<le> k (max_loop k y ys)" by (rule max_loop_ge_best)
    with True Cons show ?thesis by auto
  next
    case False
    have "k best \<le> k (max_loop k best ys)" by (rule max_loop_ge_best)
    with False Cons show ?thesis by auto
  qed
qed

text \<open>The result splits the list: everything before it is strictly smaller, nothing after
  it is greater.\<close>

lemma max_loop_split:
  "\<exists>pre post. best # xs = pre @ max_loop k best xs # post \<and>
     (\<forall>x \<in> set pre. k x < k (max_loop k best xs)) \<and>
     (\<forall>x \<in> set post. k x \<le> k (max_loop k best xs))"
proof (induction xs arbitrary: best)
  case Nil
  have "[best] = [] @ max_loop k best [] # []" by simp
  then show ?case by fastforce
next
  case (Cons y ys)
  show ?case
  proof (cases "k best < k y")
    case True
    let ?m = "max_loop k y ys"
    from Cons [of y] obtain pre post where d: "y # ys = pre @ ?m # post"
      "\<forall>x \<in> set pre. k x < k ?m" "\<forall>x \<in> set post. k x \<le> k ?m"
      by blast
    have "k y \<le> k ?m" by (rule max_loop_ge_best)
    with True have "k best < k ?m" by simp
    with d have "best # y # ys = (best # pre) @ ?m # post \<and>
        (\<forall>x \<in> set (best # pre). k x < k ?m) \<and> (\<forall>x \<in> set post. k x \<le> k ?m)"
      by simp
    moreover have "max_loop k best (y # ys) = ?m" using True by simp
    ultimately show ?thesis by metis
  next
    case False
    let ?m = "max_loop k best ys"
    have m: "max_loop k best (y # ys) = ?m" using False by simp
    from Cons [of best] obtain pre post where d: "best # ys = pre @ ?m # post"
      "\<forall>x \<in> set pre. k x < k ?m" "\<forall>x \<in> set post. k x \<le> k ?m"
      by blast
    show ?thesis
    proof (cases pre)
      case Nil
      with d(1) have eq: "best # ys = ?m # post" by (simp only: append_Nil)
      from eq have e: "?m = best"
        by (rule list.inject [THEN iffD1, THEN conjunct1, symmetric])
      from eq have ep: "post = ys"
        by (rule list.inject [THEN iffD1, THEN conjunct2, symmetric])
      from d(3) have "\<forall>x \<in> set ys. k x \<le> k ?m" unfolding ep .
      moreover from False have "k y \<le> k ?m" unfolding e by simp
      moreover have "best # y # ys = [] @ ?m # (y # ys)" unfolding e by simp
      ultimately have "best # y # ys = [] @ ?m # (y # ys) \<and>
          (\<forall>x \<in> set []. k x < k ?m) \<and> (\<forall>x \<in> set (y # ys). k x \<le> k ?m)"
        by simp
      then show ?thesis unfolding m by blast
    next
      case (Cons p pre')
      with d(1) have eq: "best # ys = p # (pre' @ ?m # post)" by (simp only: append_Cons)
      from eq have pb: "p = best"
        by (rule list.inject [THEN iffD1, THEN conjunct1, symmetric])
      from eq have ys: "ys = pre' @ ?m # post"
        by (rule list.inject [THEN iffD1, THEN conjunct2])
      from d(2) Cons have "k p < k ?m" and pre': "\<forall>x \<in> set pre'. k x < k ?m" by simp_all
      then have "k best < k ?m" unfolding pb by simp
      with False have ky: "k y < k ?m" by simp
      have "best # y # ys = best # y # (pre' @ ?m # post)"
        using ys by (rule arg_cong [where f = "\<lambda>z. best # y # z"])
      then have "best # y # ys = (best # y # pre') @ ?m # post" by (simp only: append_Cons)
      moreover have "\<forall>x \<in> set (best # y # pre'). k x < k ?m"
        using \<open>k best < k ?m\<close> ky pre' by simp
      ultimately have "best # y # ys = (best # y # pre') @ ?m # post \<and>
          (\<forall>x \<in> set (best # y # pre'). k x < k ?m) \<and> (\<forall>x \<in> set post. k x \<le> k ?m)"
        using d(3) by blast
      then show ?thesis unfolding m by blast
    qed
  qed
qed




section \<open>The candidate loop and the sort\<close>

lemma strptime_error: "strptime s = Inl e \<Longrightarrow> e = ValueError"
  by (auto simp: strptime_def split: option.splits list.splits if_splits prod.splits)

lemma candidates_loop_full:
  "candidates_loop year grp acc =
     (case find (\<lambda>f. period_of f = None) grp of
        Some bad \<Rightarrow> Inl (if start bad = None then KeyError ''start'' else ValueError)
      | None \<Rightarrow> Inr (acc @ map (candidate_of year) (filter (eligible year) grp)))"
proof (induction grp arbitrary: acc)
  case Nil
  then show ?case by simp
next
  case (Cons f grp)
  show ?case
  proof (cases "period_of f")
    case None
    then show ?thesis
      by (auto simp: period_of_def split: option.splits sum.splits dest: strptime_error)
  next
    case (Some p)
    then obtain s st en where p: "start f = Some s" "strptime s = Inr st"
      "strptime (end_date f) = Inr en" "p = (st, en)"
      by (auto simp: period_of_def split: option.splits sum.splits)
    have el: "eligible year f =
        (350 \<le> toordinal en - toordinal st \<and> year - 1 \<le> d_year st \<and> year - 1 \<le> d_year en)"
      using Some p by (simp add: eligible_def duration_days_def start_year_def end_year_def)
    have cand: "candidate_of year f = (f, \<bar>d_year en - year\<bar>, - (toordinal en - toordinal st))"
      using Some p by (simp add: candidate_of_def score_def duration_days_def end_year_def)
    have step: "candidates_loop year (f # grp) acc =
        candidates_loop year grp (if eligible year f then acc @ [candidate_of year f] else acc)"
      using p by (simp add: el cand Let_def)
    have fnd: "find (\<lambda>f. period_of f = None) (f # grp) = find (\<lambda>f. period_of f = None) grp"
      using Some by simp
    show ?thesis
      unfolding step fnd Cons.IH by (simp split: option.splits)
  qed
qed

lemma find_period_None: "\<forall>f \<in> set grp. period_of f \<noteq> None \<Longrightarrow> find (\<lambda>f. period_of f = None) grp = None"
  by (simp add: find_None_iff)

lemma candidates_loop_all_parse:
  "\<forall>f \<in> set grp. period_of f \<noteq> None \<Longrightarrow>
   candidates_loop year grp [] = Inr (map (candidate_of year) (filter (eligible year) grp))"
  by (simp add: candidates_loop_full find_period_None)

lemma candidates_loop_malformed:
  "\<forall>f \<in> set grp. start f \<noteq> None \<Longrightarrow> \<exists>f \<in> set grp. period_of f = None \<Longrightarrow>
   candidates_loop year grp acc = Inl ValueError"
proof (induction grp arbitrary: acc)
  case Nil
  then show ?case by simp
next
  case (Cons f grp)
  from Cons.prems(1) obtain s where s: "start f = Some s" by auto
  show ?case
  proof (cases "period_of f")
    case None
    with s show ?thesis
      by (auto simp: period_of_def split: sum.splits dest: strptime_error)
  next
    case (Some p)
    with s obtain st en where p: "strptime s = Inr st" "strptime (end_date f) = Inr en"
      by (auto simp: period_of_def split: sum.splits)
    from Some Cons.prems have "\<forall>f \<in> set grp. start f \<noteq> None" "\<exists>f \<in> set grp. period_of f = None"
      by auto
    then have "\<And>acc. candidates_loop year grp acc = Inl ValueError" by (rule Cons.IH)
    with s p show ?thesis by (simp add: Let_def)
  qed
qed

lemma candidates_loop_mem:
  "candidates_loop year grp acc = Inr cs \<Longrightarrow> fst ` set cs \<subseteq> fst ` set acc \<union> set grp"
proof (induction grp arbitrary: acc)
  case Nil
  then show ?case by auto
next
  case (Cons f grp)
  from Cons.prems obtain acc' where "candidates_loop year grp acc' = Inr cs"
    "fst ` set acc' \<subseteq> fst ` set acc \<union> {f}"
    by (auto simp: Let_def split: option.splits sum.splits if_splits)
  from Cons.IH [OF this(1)] this(2) show ?case by auto
qed

lemma sort_key_hd:
  assumes "sort_key k xs = c # cs"
  shows "c \<in> set xs \<and> (\<forall>x \<in> set xs. k c \<le> k x)"
proof -
  have "set (sort_key k xs) = set xs" by simp
  with assms have s: "set xs = insert c (set cs)" by auto
  have "sorted (map k (sort_key k xs))" by (rule sorted_sort_key)
  with assms have "\<forall>x \<in> set cs. k c \<le> k x" by simp
  with s show ?thesis by auto
qed

lemma sort_key_Nil_iff: "sort_key k xs = [] \<longleftrightarrow> xs = []"
  by (metis length_sort length_0_conv)

lemma sort_key_first_min:
  fixes k :: "'a \<Rightarrow> 'k::linorder"
  assumes "sort_key k xs = c # cs"
  shows "\<exists>rest. filter (\<lambda>x. \<forall>y \<in> set xs. k x \<le> k y) xs = c # rest"
proof -
  from sort_key_hd [OF assms] have c: "c \<in> set xs" "\<forall>x \<in> set xs. k c \<le> k x" by simp_all
  have "filter (\<lambda>x. \<forall>y \<in> set xs. k x \<le> k y) xs = filter (\<lambda>x. k x = k c) xs"
  proof (rule filter_cong [OF refl])
    fix x assume "x \<in> set xs"
    with c show "(\<forall>y \<in> set xs. k x \<le> k y) = (k x = k c)"
      by (auto intro: antisym)
  qed
  also have "\<dots> = filter (\<lambda>x. k x = k c) (sort_key k xs)"
    by (rule sort_key_stable [symmetric])
  also have "\<dots> = c # filter (\<lambda>x. k x = k c) cs"
    by (simp add: assms)
  finally show ?thesis by blast
qed

lemma filter_min_candidates:
  "filter (\<lambda>x. \<forall>y \<in> set (map (candidate_of year) es). (fst (snd x), snd (snd x)) \<le> (fst (snd y), snd (snd y)))
      (map (candidate_of year) es) =
   map (candidate_of year) (filter (\<lambda>r. \<forall>f \<in> set es. score year r \<le> score year f) es)"
  by (simp add: filter_map comp_def candidate_of_def)

lemma filter_eligible_min:
  "filter (\<lambda>r. \<forall>f \<in> set (filter (eligible year) grp). score year r \<le> score year f)
      (filter (eligible year) grp) =
   filter (\<lambda>r. eligible year r \<and> (\<forall>f \<in> set grp. eligible year f \<longrightarrow> score year r \<le> score year f)) grp"
  by (auto intro: filter_cong)

lemma less_eq_score:
  "score year r \<le> score year f \<longleftrightarrow>
     \<bar>end_year r - year\<bar> < \<bar>end_year f - year\<bar> \<or>
     (\<bar>end_year r - year\<bar> = \<bar>end_year f - year\<bar> \<and> duration_days f \<le> duration_days r)"
  by (auto simp: score_def less_eq_prod_def)

section \<open>Date strings\<close>

lemma digit_of_cases:
  "digit_of c = Some p \<Longrightarrow>
   (c, p) \<in> set [(CHR ''0'', 0), (CHR ''1'', 1), (CHR ''2'', 2), (CHR ''3'', 3), (CHR ''4'', 4),
      (CHR ''5'', 5), (CHR ''6'', 6), (CHR ''7'', 7), (CHR ''8'', 8), (CHR ''9'', 9)]"
  unfolding digit_of_def by (rule map_of_SomeD)

lemma digit_of_range: "digit_of c = Some p \<Longrightarrow> 0 \<le> p \<and> p \<le> 9"
  by (drule digit_of_cases) auto

lemma digit_of_order:
  assumes "digit_of c = Some p" "digit_of c' = Some q"
  shows "(c < c') = (p < q) \<and> (c = c') = (p = q)"
  using digit_of_cases [OF assms(1)] digit_of_cases [OF assms(2)]
  by (elim disjE | simp)+

lemma digit_step_less:
  assumes "digit_of c \<noteq> None" "digit_of c' \<noteq> None" "n < n'"
  shows "digit_step n c < digit_step n' c'"
proof -
  from assms obtain p q where "digit_of c = Some p" "digit_of c' = Some q" by auto
  moreover from this have "0 \<le> p \<and> p \<le> 9" "0 \<le> q \<and> q \<le> 9"
    by (auto dest: digit_of_range)
  ultimately show ?thesis using assms(3) by (simp add: digit_step_def)
qed

lemma foldl_digit_step_less:
  "length s = length t \<Longrightarrow> list_all (\<lambda>c. digit_of c \<noteq> None) s \<Longrightarrow>
   list_all (\<lambda>c. digit_of c \<noteq> None) t \<Longrightarrow> n < n' \<Longrightarrow>
   foldl digit_step n s < foldl digit_step n' t"
proof (induction s t arbitrary: n n' rule: list_induct2)
  case Nil
  then show ?case by simp
next
  case (Cons c s c' t)
  from Cons.prems have "digit_step n c < digit_step n' c'"
    by (intro digit_step_less) simp_all
  with Cons show ?case by simp
qed

lemma foldl_digit_step_order:
  "length s = length t \<Longrightarrow> list_all (\<lambda>c. digit_of c \<noteq> None) s \<Longrightarrow>
   list_all (\<lambda>c. digit_of c \<noteq> None) t \<Longrightarrow>
   (foldl digit_step n s < foldl digit_step n t) = (s < t) \<and>
   (foldl digit_step n s = foldl digit_step n t) = (s = t)"
proof (induction s t arbitrary: n rule: list_induct2)
  case Nil
  then show ?case by simp
next
  case (Cons c s c' t)
  from Cons.prems obtain p q where pq: "digit_of c = Some p" "digit_of c' = Some q" by auto
  from digit_of_order [OF pq] have ord: "(c < c') = (p < q)" "(c = c') = (p = q)" by simp_all
  from Cons.prems have ds: "list_all (\<lambda>c. digit_of c \<noteq> None) s" "list_all (\<lambda>c. digit_of c \<noteq> None) t"
    by simp_all
  have st: "digit_step n c = 10 * n + p" "digit_step n c' = 10 * n + q"
    using pq by (simp_all add: digit_step_def)
  consider "p < q" | "p = q" | "q < p" by linarith
  then show ?case
  proof cases
    case 1
    then have "digit_step n c < digit_step n c'" unfolding st by simp
    from foldl_digit_step_less [OF Cons.hyps ds this] 1 ord show ?thesis by auto
  next
    case 2
    with ord have "c = c'" by simp
    with Cons.IH [OF ds, of "digit_step n c"] show ?thesis by simp
  next
    case 3
    then have "digit_step n c' < digit_step n c" unfolding st by simp
    from foldl_digit_step_less [OF Cons.hyps [symmetric] ds(2,1) this] 3 ord show ?thesis by auto
  qed
qed

lemma digits_val_order:
  assumes "length s = length t" "list_all (\<lambda>c. digit_of c \<noteq> None) s"
    "list_all (\<lambda>c. digit_of c \<noteq> None) t"
  shows "(digits_val s < digits_val t) = (s < t)" "(digits_val s = digits_val t) = (s = t)"
  using foldl_digit_step_order [OF assms, of 0] by (simp_all add: digits_val_def)

lemma append_less_same_length:
  fixes a :: "'a::linorder list"
  shows "length a = length a' \<Longrightarrow> (a @ x < a' @ y) = (a < a' \<or> a = a' \<and> x < y)"
  by (induction a a' rule: list_induct2) auto

lemma iso_split:
  assumes "length s = 10"
  shows "s = take 4 s @ (s ! 4) # take 2 (drop 5 s) @ (s ! 7) # drop 8 s"
proof -
  have "s = take 4 s @ drop 4 s" by (simp only: append_take_drop_id)
  also have "drop 4 s = (s ! 4) # drop 5 s"
    using Cons_nth_drop_Suc [of 4 s] assms by simp
  also have "drop 5 s = take 2 (drop 5 s) @ drop 2 (drop 5 s)"
    by (simp only: append_take_drop_id)
  also have "drop 2 (drop 5 s) = (s ! 7) # drop 8 s"
    using Cons_nth_drop_Suc [of 7 s] assms by simp
  finally show ?thesis .
qed

text \<open>On strings of the form \<open>YYYY-MM-DD\<close> the order of the strings is the order of the
  dates.\<close>

lemma iso_key_order:
  assumes "iso_key s = Some k" "iso_key t = Some k'"
  shows "(s \<le> t) = (k \<le> k')"
proof -
  let ?A = "take 4 s" and ?B = "take 2 (drop 5 s)" and ?C = "drop 8 s"
  let ?A' = "take 4 t" and ?B' = "take 2 (drop 5 t)" and ?C' = "drop 8 t"
  from assms(1) have s: "length s = 10" "s ! 4 = CHR ''-''" "s ! 7 = CHR ''-''"
    and ds: "list_all (\<lambda>c. digit_of c \<noteq> None) ?A" "list_all (\<lambda>c. digit_of c \<noteq> None) ?B"
      "list_all (\<lambda>c. digit_of c \<noteq> None) ?C"
    and k: "k = (digits_val ?A, digits_val ?B, digits_val ?C)"
    by (auto simp: iso_key_def split: if_splits)
  from assms(2) have t: "length t = 10" "t ! 4 = CHR ''-''" "t ! 7 = CHR ''-''"
    and dt: "list_all (\<lambda>c. digit_of c \<noteq> None) ?A'" "list_all (\<lambda>c. digit_of c \<noteq> None) ?B'"
      "list_all (\<lambda>c. digit_of c \<noteq> None) ?C'"
    and k': "k' = (digits_val ?A', digits_val ?B', digits_val ?C')"
    by (auto simp: iso_key_def split: if_splits)
  have la: "length ?A = length ?A'" "length ?B = length ?B'" "length ?C = length ?C'"
    using s(1) t(1) by simp_all
  have es: "s = ?A @ CHR ''-'' # ?B @ CHR ''-'' # ?C"
    using iso_split [OF s(1)] s(2,3) by simp
  have et: "t = ?A' @ CHR ''-'' # ?B' @ CHR ''-'' # ?C'"
    using iso_split [OF t(1)] t(2,3) by simp
  have less: "(s < t) = (?A < ?A' \<or> ?A = ?A' \<and> (?B < ?B' \<or> ?B = ?B' \<and> ?C < ?C'))"
    by (subst es, subst et)
      (simp only: append_less_same_length [OF la(1)] append_less_same_length [OF la(2)]
        Cons_less_Cons less_irrefl simp_thms)
  have eq: "(s = t) = (?A = ?A' \<and> ?B = ?B' \<and> ?C = ?C')"
    by (subst es, subst et) (use la in simp)
  have "(s \<le> t) = (s < t \<or> s = t)" by (rule le_less)
  also have "\<dots> = (k \<le> k')"
    unfolding less eq k k' less_eq_prod_def
    using digits_val_order [OF la(1) ds(1) dt(1)] digits_val_order [OF la(2) ds(2) dt(2)]
      digits_val_order [OF la(3) ds(3) dt(3)]
    by auto
  finally show ?thesis .
qed

lemma digit_not_dash: "digit_of c \<noteq> None \<Longrightarrow> c \<noteq> CHR ''-''"
  by (auto simp: digit_of_def)

lemma digit_not_space: "digit_of c \<noteq> None \<Longrightarrow> c \<noteq> CHR '' ''"
  by (auto simp: digit_of_def)

lemma list_of_length_10:
  assumes "length s = 10"
  shows "s = [s ! 0, s ! 1, s ! 2, s ! 3, s ! 4, s ! 5, s ! 6, s ! 7, s ! 8, s ! 9]"
proof -
  have "map ((!) s) [0..<length s] = s" by (rule map_nth)
  then have "s = map ((!) s) [0..<10]" using assms by simp
  also have "[0..<10] = [0, 1, 2, 3, 4, 5, 6, 7, 8, 9::nat]"
    by (simp add: upt_rec)
  finally show ?thesis by simp
qed

text \<open>Such a string, when \<open>strptime\<close> reads it, is read as that date.\<close>

lemma iso_key_strptime:
  assumes "iso_key s = Some (y, m, d)" "strptime s = Inr dt"
  shows "dt = \<lparr>d_year = y, d_month = m, d_day = d\<rparr>"
proof -
  from assms(1) have len: "length s = 10" by (simp add: iso_key_def split: if_splits)
  obtain a b c e f g h i j k where s: "s = [a, b, c, e, f, g, h, i, j, k]"
    using list_of_length_10 [OF len] by blast
  from assms(1) have dash: "f = CHR ''-''" "i = CHR ''-''"
    and dig: "digit_of a \<noteq> None" "digit_of b \<noteq> None" "digit_of c \<noteq> None" "digit_of e \<noteq> None"
      "digit_of g \<noteq> None" "digit_of h \<noteq> None" "digit_of j \<noteq> None" "digit_of k \<noteq> None"
    and key: "y = digits_val [a, b, c, e]" "m = digits_val [g, h]" "d = digits_val [j, k]"
    unfolding s by (auto simp: iso_key_def split: if_splits)
  from dig obtain pa pb pc pe pg ph pj pk where p: "digit_of a = Some pa" "digit_of b = Some pb"
    "digit_of c = Some pc" "digit_of e = Some pe" "digit_of g = Some pg" "digit_of h = Some ph"
    "digit_of j = Some pj" "digit_of k = Some pk"
    by auto
  have nd: "g \<noteq> CHR ''-''" "h \<noteq> CHR ''-''" "j \<noteq> CHR '' ''"
    using dig(5) digit_not_dash apply blast
    using dig(6) digit_not_dash apply blast
    using dig(7) digit_not_space by blast
  have vals: "y = 1000 * pa + 100 * pb + 10 * pc + pe" "m = 10 * pg + ph" "d = 10 * pj + pk"
    unfolding key by (simp_all add: digits_val_def digit_step_def p)
  from assms(2) show ?thesis
    unfolding s dash strptime_def
    by (simp add: p nd vals split: if_splits)
qed

section \<open>One fiscal-year group\<close>

lemma resolve_group_mem:
  assumes "resolve_group year grp = Inr r"
  shows "set r \<subseteq> set grp \<and> length r \<le> 1"
proof (cases grp)
  case Nil
  with assms show ?thesis by (simp add: resolve_group_def)
next
  case (Cons first rest)
  show ?thesis
  proof (cases "start first")
    case None
    have "max_loop filed first rest \<in> set (first # rest)" by (rule max_loop_mem)
    with assms Cons None show ?thesis
      by (auto simp: resolve_group_def py_max_def)
  next
    case (Some s)
    with assms Cons obtain cands where c: "candidates_loop year grp [] = Inr cands"
      by (auto simp: resolve_group_def split: sum.splits)
    from candidates_loop_mem [OF c] have sub: "fst ` set cands \<subseteq> set grp" by simp
    show ?thesis
    proof (cases "sort_key (\<lambda>x. (fst (snd x), snd (snd x))) cands")
      case Nil
      with assms Cons Some c show ?thesis by (auto simp: resolve_group_def)
    next
      case (Cons c' cs)
      from sort_key_hd [OF this] have "c' \<in> set cands" by simp
      with sub have "fst c' \<in> set grp" by auto
      with assms \<open>grp = first # rest\<close> Some c Cons show ?thesis
        by (auto simp: resolve_group_def)
    qed
  qed
qed

lemma resolve_group_instant:
  "start first = None \<Longrightarrow> resolve_group year (first # rest) = Inr [max_loop filed first rest]"
  by (simp add: resolve_group_def py_max_def)


lemma resolve_group_duration:
  assumes "start first \<noteq> None"
  shows "resolve_group year (first # rest) = duration_resolution year (first # rest)"
proof (cases "find (\<lambda>f. period_of f = None) (first # rest)")
  case (Some bad)
  with assms show ?thesis
    unfolding resolve_group_def duration_resolution_def candidates_loop_full [of year "first # rest" "[]"]
    by (simp del: find.simps)
next
  case None
  let ?es = "filter (eligible year) (first # rest)"
  let ?k = "\<lambda>x::filing \<times> int \<times> int. (fst (snd x), snd (snd x))"
  have cl: "candidates_loop year (first # rest) [] = Inr (map (candidate_of year) ?es)"
    unfolding candidates_loop_full [of year "first # rest" "[]"] using None by simp
  show ?thesis
  proof (cases "sort_key ?k (map (candidate_of year) ?es)")
    case Nil
    then have "?es = []" by (simp add: sort_key_Nil_iff)
    then have "filter (\<lambda>r. eligible year r \<and>
        (\<forall>f \<in> set (first # rest). eligible year f \<longrightarrow> score year r \<le> score year f)) (first # rest) = []"
      unfolding filter_eligible_min [symmetric] by simp
    with assms None cl Nil show ?thesis
      unfolding resolve_group_def duration_resolution_def by (simp del: filter.simps)
  next
    case (Cons c cs)
    from sort_key_first_min [OF this] obtain more where
      "filter (\<lambda>x. \<forall>y \<in> set (map (candidate_of year) ?es). ?k x \<le> ?k y) (map (candidate_of year) ?es) = c # more"
      by blast
    then have "map (candidate_of year) (filter (\<lambda>r. \<forall>f \<in> set ?es. score year r \<le> score year f) ?es) = c # more"
      unfolding filter_min_candidates .
    then obtain r rs where "filter (\<lambda>r. \<forall>f \<in> set ?es. score year r \<le> score year f) ?es = r # rs"
      and "c = candidate_of year r"
      by (auto simp: map_eq_Cons_conv)
    then have "filter (\<lambda>r. eligible year r \<and>
        (\<forall>f \<in> set (first # rest). eligible year f \<longrightarrow> score year r \<le> score year f)) (first # rest) = r # rs"
      and "fst c = r"
      unfolding filter_eligible_min by (simp_all add: candidate_of_def)
    with assms None cl Cons show ?thesis
      unfolding resolve_group_def duration_resolution_def by (simp del: filter.simps)
  qed
qed

lemma duration_resolution_total:
  assumes "\<forall>f \<in> set grp. period_of f \<noteq> None"
  shows "\<exists>r. duration_resolution year grp = Inr r"
  unfolding duration_resolution_def find_period_None [OF assms]
  by (simp split: list.splits)

lemma resolve_group_malformed:
  assumes "start first \<noteq> None" "\<forall>f \<in> set (first # rest). start f \<noteq> None"
    "\<exists>f \<in> set (first # rest). period_of f = None"
  shows "resolve_group year (first # rest) = Inl ValueError"
proof -
  have "candidates_loop year (first # rest) [] = Inl ValueError"
    using assms(2,3) by (rule candidates_loop_malformed)
  with assms(1) show ?thesis by (simp add: resolve_group_def)
qed





section \<open>The loop over the years\<close>

lemma years_loop_acc:
  "years_loop by_year ys acc =
     (case years_loop by_year ys [] of Inl e \<Rightarrow> Inl e | Inr r \<Rightarrow> Inr (acc @ r))"
proof (induction ys arbitrary: acc)
  case Nil
  then show ?case by simp
next
  case (Cons y ys)
  show ?case
  proof (cases "resolve_group y (get_year by_year y)")
    case (Inl e)
    then show ?thesis by simp
  next
    case (Inr r)
    have "years_loop by_year ys (acc @ r) =
        (case years_loop by_year ys [] of Inl e \<Rightarrow> Inl e | Inr r' \<Rightarrow> Inr ((acc @ r) @ r'))"
      by (rule Cons.IH)
    moreover have "years_loop by_year ys ([] @ r) =
        (case years_loop by_year ys [] of Inl e \<Rightarrow> Inl e | Inr r' \<Rightarrow> Inr (([] @ r) @ r'))"
      by (rule Cons.IH)
    ultimately show ?thesis using Inr by (simp split: sum.splits)
  qed
qed

lemma years_loop_Cons:
  "years_loop by_year (y # ys) [] =
     (case resolve_group y (get_year by_year y) of
        Inl e \<Rightarrow> Inl e
      | Inr r \<Rightarrow> (case years_loop by_year ys [] of Inl e \<Rightarrow> Inl e | Inr rs \<Rightarrow> Inr (r @ rs)))"
proof (cases "resolve_group y (get_year by_year y)")
  case (Inl e)
  then show ?thesis by simp
next
  case (Inr r)
  have "years_loop by_year ys ([] @ r) =
      (case years_loop by_year ys [] of Inl e \<Rightarrow> Inl e | Inr r' \<Rightarrow> Inr (r @ r'))"
    by (simp add: years_loop_acc [of by_year ys r])
  with Inr show ?thesis by simp
qed

lemma years_loop_sorted:
  assumes "sorted_wrt (<) ys"
    and "\<forall>y \<in> set ys. \<forall>f \<in> set (get_year by_year y). fy f = y"
    and "years_loop by_year ys [] = Inr rs"
  shows "sorted_wrt (<) (map fy rs) \<and> fy ` set rs \<subseteq> set ys"
  using assms
proof (induction ys arbitrary: rs)
  case Nil
  then show ?case by simp
next
  case (Cons y ys)
  from Cons.prems(3) have
    "(case resolve_group y (get_year by_year y) of
        Inl e \<Rightarrow> Inl e
      | Inr r \<Rightarrow> (case years_loop by_year ys [] of Inl e \<Rightarrow> Inl e | Inr rs \<Rightarrow> Inr (r @ rs))) = Inr rs"
    by (simp only: years_loop_Cons)
  then obtain r rs' where r: "resolve_group y (get_year by_year y) = Inr r"
    and rs': "years_loop by_year ys [] = Inr rs'" and rs: "rs = r @ rs'"
    by (auto split: sum.splits)
  from Cons.prems have "sorted_wrt (<) ys" "\<forall>y \<in> set ys. \<forall>f \<in> set (get_year by_year y). fy f = y"
    by simp_all
  from Cons.IH [OF this rs'] have IH: "sorted_wrt (<) (map fy rs')" "fy ` set rs' \<subseteq> set ys"
    by simp_all
  from resolve_group_mem [OF r] have m: "set r \<subseteq> set (get_year by_year y)" "length r \<le> 1"
    by simp_all
  with Cons.prems(2) have fyr: "\<forall>f \<in> set r. fy f = y" by auto
  from Cons.prems(1) have lt: "\<forall>z \<in> set ys. y < z" by simp
  show ?case
  proof (cases r)
    case Nil
    with IH rs show ?thesis by auto
  next
    case (Cons a as)
    with m have "r = [a]" by simp
    with fyr have "fy a = y" by simp
    with IH lt rs \<open>r = [a]\<close> show ?thesis by auto
  qed
qed

lemma years_loop_malformed:
  assumes "\<forall>y \<in> set ys. get_year by_year y \<noteq> [] \<and> (\<forall>f \<in> set (get_year by_year y). start f \<noteq> None)"
    and "\<exists>y \<in> set ys. \<exists>f \<in> set (get_year by_year y). period_of f = None"
  shows "years_loop by_year ys acc = Inl ValueError"
  using assms
proof (induction ys arbitrary: acc)
  case Nil
  then show ?case by simp
next
  case (Cons y ys)
  from Cons.prems(1) obtain first rest where g: "get_year by_year y = first # rest"
    by (cases "get_year by_year y") auto
  from Cons.prems(1) g have st: "start first \<noteq> None" "\<forall>f \<in> set (first # rest). start f \<noteq> None"
    by auto
  show ?case
  proof (cases "\<exists>f \<in> set (first # rest). period_of f = None")
    case True
    with st have "resolve_group y (first # rest) = Inl ValueError"
      by (rule resolve_group_malformed)
    then show ?thesis by (simp add: g)
  next
    case False
    then have "\<forall>f \<in> set (first # rest). period_of f \<noteq> None" by simp
    from duration_resolution_total [OF this] obtain r where
      "duration_resolution y (first # rest) = Inr r" by blast
    then have r: "resolve_group y (first # rest) = Inr r"
      by (simp only: resolve_group_duration [OF st(1)])
    from Cons.prems False g have "\<exists>y \<in> set ys. \<exists>f \<in> set (get_year by_year y). period_of f = None"
      by auto
    moreover from Cons.prems(1) have
      "\<forall>y \<in> set ys. get_year by_year y \<noteq> [] \<and> (\<forall>f \<in> set (get_year by_year y). start f \<noteq> None)"
      by simp
    ultimately have "years_loop by_year ys (acc @ r) = Inl ValueError"
      by (intro Cons.IH)
    with r show ?thesis by (simp add: g)
  qed
qed

lemma extract_metric_try_lookup:
  "lookup_filings data metric_name = Inr filings \<Longrightarrow>
   extract_metric_try data metric_name =
     years_loop (group_by_year (filter is_annual filings) [])
       (sort (map fst (group_by_year (filter is_annual filings) []))) []"
  by (simp add: extract_metric_try_def Let_def)

lemma extract_metric_try_sorted:
  assumes "extract_metric_try data metric_name = Inr results"
  shows "sorted_wrt (<) (map fy results)"
proof -
  from assms obtain filings where l: "lookup_filings data metric_name = Inr filings"
    by (cases "lookup_filings data metric_name") (auto simp: extract_metric_try_def)
  let ?by = "group_by_year (filter is_annual filings) []"
  from assms have yl: "years_loop ?by (sort (map fst ?by)) [] = Inr results"
    unfolding extract_metric_try_lookup [OF l] .
  have "\<forall>y \<in> set (sort (map fst ?by)). \<forall>f \<in> set (get_year ?by y). fy f = y"
    by (simp add: get_year_grouped)
  with years_loop_sorted [OF years_sorted _ yl] show ?thesis by blast
qed

lemma extract_metric_cases:
  "extract_metric data metric_name = Inr results \<Longrightarrow>
   extract_metric_try data metric_name = Inr results \<or> results = []"
  by (auto simp: extract_metric_def split: sum.splits py_error.splits)

lemma extract_metric_sorted:
  assumes "extract_metric data metric_name = Inr results"
  shows "sorted_wrt (<) (map fy results)"
  using extract_metric_cases [OF assms] extract_metric_try_sorted by auto

section \<open>Evaluation of the examples\<close>

lemmas ex_defs = ex_quarter_def ex_364_def ex_371_def ex_stale_def ex_next_def ex_200_def
  ex_first_filed_def ex_restated_def ex_amended_def ex_tie_a_def ex_tie_b_def
  ex_other_year_def ex_2019_def ex_2021_def ex_bad_month_def ex_q1_report_def
  ex_facts_def ex_malformed_facts_def ex_skipped_facts_def annual_report_def
  ex_371_no_start_def ex_restated_with_start_def ex_uniform_facts_def ex_mixed_facts_def
  without_start_def

lemmas eval_defs = extract_metric_def extract_metric_try_def lookup_filings_def is_annual_def
  get_year_def resolve_group_def py_max_def period_of_def eligible_def
  score_def duration_days_def start_year_def end_year_def candidate_of_def Let_def
  strptime_def digit_of_def days_in_month_def is_leap_def toordinal_def
  days_before_year_def days_before_month_def

section \<open>Duration-typed resolution\<close>

text \<open>
  Claim C1 as stated fails. In the group of 2019 made of a full-year record and a record
  whose start date names a thirteenth month, the first record has a start date and is
  eligible, yet no record is emitted: reading the second record raises \<open>ValueError\<close>.
\<close>

theorem eligible_not_emitted_counterexample:
  "start ex_2019 = Some ''2019-01-01'' \<and> eligible 2019 ex_2019 \<and>
   resolve_group 2019 [ex_2019, ex_bad_month] = Inl ValueError \<and>
   extract_metric ex_malformed_facts ''NetIncomeLoss'' = Inl ValueError"
  by (simp add: ex_defs eval_defs)

text \<open>
  Claim C1, amended. In a duration-typed group (the first record has a start date) in
  which every record carries a start date and has start and end dates that can be parsed,
  the candidates are exactly the records that span at least 350 days and whose start year
  and end year are at least the fiscal year minus one. When there is such a record, the
  group emits one record: an eligible record of the group whose tuple
  \<open>(|end year - fiscal year|, -days)\<close> is least in the lexicographic order, so that among
  eligible records whose end year is equally close the emitted one spans the most days.
\<close>

theorem duration_selects_min_score:
  assumes "start first \<noteq> None"
    and "\<forall>f \<in> set (first # rest). period_of f \<noteq> None"
    and "\<exists>f \<in> set (first # rest). eligible fiscalYear f"
  shows "candidates_loop fiscalYear (first # rest) [] =
           Inr (map (candidate_of fiscalYear) (filter (eligible fiscalYear) (first # rest))) \<and>
         (\<exists>r. resolve_group fiscalYear (first # rest) = Inr [r] \<and> r \<in> set (first # rest) \<and>
              eligible fiscalYear r \<and>
              (\<forall>f \<in> set (first # rest). eligible fiscalYear f \<longrightarrow>
                 score fiscalYear r \<le> score fiscalYear f \<and>
                 (\<bar>end_year f - fiscalYear\<bar> = \<bar>end_year r - fiscalYear\<bar> \<longrightarrow>
                    duration_days f \<le> duration_days r)))"
proof -
  let ?grp = "first # rest"
  let ?k = "\<lambda>x::filing \<times> int \<times> int. (fst (snd x), snd (snd x))"
  let ?cands = "map (candidate_of fiscalYear) (filter (eligible fiscalYear) ?grp)"
  have cl: "candidates_loop fiscalYear ?grp [] = Inr ?cands"
    using assms(2) by (rule candidates_loop_all_parse)
  from assms(3) have "filter (eligible fiscalYear) ?grp \<noteq> []"
    by (simp only: filter_empty_conv) blast
  then have "?cands \<noteq> []" by simp
  then have "sort_key ?k ?cands \<noteq> []" by (simp add: sort_key_Nil_iff)
  then obtain c cs where sk: "sort_key ?k ?cands = c # cs" by (cases "sort_key ?k ?cands") auto
  from sort_key_hd [OF sk] have c: "c \<in> set ?cands" "\<forall>x \<in> set ?cands. ?k c \<le> ?k x" by simp_all
  from c(1) have "c \<in> candidate_of fiscalYear ` set (filter (eligible fiscalYear) ?grp)"
    by (simp only: set_map)
  then obtain r where rc: "c = candidate_of fiscalYear r"
    and "r \<in> set (filter (eligible fiscalYear) ?grp)"
    by blast
  then have "r \<in> set ?grp \<and> eligible fiscalYear r"
    by (simp only: set_filter mem_Collect_eq)
  with rc have r: "c = candidate_of fiscalYear r" "r \<in> set ?grp" "eligible fiscalYear r"
    by simp_all
  have min: "\<forall>f \<in> set ?grp. eligible fiscalYear f \<longrightarrow> score fiscalYear r \<le> score fiscalYear f"
  proof (intro ballI impI)
    fix f assume "f \<in> set ?grp" "eligible fiscalYear f"
    then have "f \<in> set (filter (eligible fiscalYear) ?grp)"
      by (simp only: set_filter mem_Collect_eq)
    then have "candidate_of fiscalYear f \<in> set ?cands"
      by (simp only: set_map) (rule imageI)
    with c(2) have "?k c \<le> ?k (candidate_of fiscalYear f)" by blast
    then show "score fiscalYear r \<le> score fiscalYear f"
      unfolding r(1) by (simp add: candidate_of_def)
  qed
  have res: "resolve_group fiscalYear ?grp = Inr [r]"
    using assms(1) cl sk r(1) by (simp add: resolve_group_def candidate_of_def)
  from min have "\<forall>f \<in> set ?grp. eligible fiscalYear f \<longrightarrow>
      score fiscalYear r \<le> score fiscalYear f \<and>
      (\<bar>end_year f - fiscalYear\<bar> = \<bar>end_year r - fiscalYear\<bar> \<longrightarrow> duration_days f \<le> duration_days r)"
    by (auto simp: less_eq_score)
  with cl res r show ?thesis by blast
qed

theorem duration_selects_min_score_witness:
  "resolve_group 2019 [ex_quarter, ex_364, ex_next, ex_371, ex_stale] = Inr [ex_371] \<and>
   duration_days ex_364 = 364 \<and> duration_days ex_371 = 371 \<and> duration_days ex_next = 380 \<and>
   eligible 2019 ex_364 \<and> eligible 2019 ex_371 \<and> eligible 2019 ex_next \<and>
   \<not> eligible 2019 ex_quarter \<and> \<not> eligible 2019 ex_stale"
proof -
  have h1: "start ex_quarter \<noteq> None"
    by (simp add: ex_defs)
  have h2: "\<forall>f \<in> set (ex_quarter # [ex_364, ex_next, ex_371, ex_stale]). period_of f \<noteq> None"
    by (simp add: ex_defs eval_defs)
  have h3: "\<exists>f \<in> set (ex_quarter # [ex_364, ex_next, ex_371, ex_stale]). eligible 2019 f"
    by (simp add: ex_defs eval_defs)
  show ?thesis
    using duration_selects_min_score [OF h1 h2 h3] by (simp add: ex_defs eval_defs)
qed

text \<open>
  Claim C5 as stated fails. A group of 2019 whose only record has a start date that names
  a thirteenth month has no eligible record, and so has the group of a quarter and that
  record; neither is dropped in silence: reading the record raises \<open>ValueError\<close>.
\<close>

theorem ineligible_year_raises_counterexample:
  "start ex_bad_month = Some ''2019-13-01'' \<and> \<not> eligible 2019 ex_bad_month \<and>
   resolve_group 2019 [ex_bad_month] = Inl ValueError \<and>
   start ex_quarter = Some ''2019-01-01'' \<and> \<not> eligible 2019 ex_quarter \<and>
   resolve_group 2019 [ex_quarter, ex_bad_month] = Inl ValueError"
  by (simp add: ex_defs eval_defs)

text \<open>
  Claim C5, amended. In a duration-typed group in which every record carries a start date
  and has start and end dates that can be parsed, and none of which is eligible, the group
  emits nothing and raises nothing, and the loop over the years goes on with the remaining
  years, its results unchanged.
\<close>

theorem ineligible_year_dropped:
  assumes "start first \<noteq> None"
    and "\<forall>f \<in> set (first # rest). period_of f \<noteq> None"
    and "\<forall>f \<in> set (first # rest). \<not> eligible fiscalYear f"
  shows "resolve_group fiscalYear (first # rest) = Inr [] \<and>
         (get_year by_year fiscalYear = first # rest \<longrightarrow>
            years_loop by_year (fiscalYear # years) results = years_loop by_year years results)"
proof -
  have "candidates_loop fiscalYear (first # rest) [] =
      Inr (map (candidate_of fiscalYear) (filter (eligible fiscalYear) (first # rest)))"
    using assms(2) by (rule candidates_loop_all_parse)
  moreover from assms(3) have "filter (eligible fiscalYear) (first # rest) = []"
    by (simp only: filter_empty_conv)
  ultimately have "candidates_loop fiscalYear (first # rest) [] = Inr []" by simp
  with assms(1) have "resolve_group fiscalYear (first # rest) = Inr []"
    by (simp add: resolve_group_def)
  then show ?thesis by simp
qed

theorem ineligible_year_dropped_witness:
  "resolve_group 2020 [ex_200] = Inr [] \<and> duration_days ex_200 = 200 \<and>
   extract_metric ex_facts ''NetIncomeLoss'' = Inr [ex_2019, ex_2021]"
proof -
  have h1: "start ex_200 \<noteq> None"
    by (simp add: ex_defs)
  have h2: "\<forall>f \<in> set (ex_200 # []). period_of f \<noteq> None"
    by (simp add: ex_defs eval_defs)
  have h3: "\<forall>f \<in> set (ex_200 # []). \<not> eligible 2020 f"
    by (simp add: ex_defs eval_defs)
  show ?thesis
    using ineligible_year_dropped [OF h1 h2 h3,
        where by_year = "group_by_year [ex_2021, ex_2019, ex_200] []"
          and years = "[2021]" and results = "[ex_2019]"]
    by (simp add: ex_defs eval_defs)
qed

section \<open>Instant-typed resolution\<close>

text \<open>
  Claim C2. In an instant-typed group (the first record has no start date) the group
  emits one record of the group whose filed date no record of the group exceeds. With
  records filed 2022-02-01, 2023-01-15 and 2022-03-01 it is the one filed 2023-01-15.
  The filed dates are compared as the code compares them, as strings; between two dates
  written \<open>YYYY-MM-DD\<close> that is the order of the dates.
\<close>

theorem instant_selects_latest_filed:
  assumes "start first = None"
  shows "\<exists>r. resolve_group fiscalYear (first # rest) = Inr [r] \<and> r \<in> set (first # rest) \<and>
           (\<forall>f \<in> set (first # rest). filed f \<le> filed r \<and>
              (\<forall>k k'. iso_key (filed f) = Some k \<and> iso_key (filed r) = Some k' \<longrightarrow> k \<le> k'))"
proof -
  let ?r = "max_loop filed first rest"
  have "resolve_group fiscalYear (first # rest) = Inr [?r]"
    using assms by (rule resolve_group_instant)
  moreover have "?r \<in> set (first # rest)" by (rule max_loop_mem)
  moreover have ge: "\<forall>f \<in> set (first # rest). filed f \<le> filed ?r"
    using max_loop_ge [where k=filed] by blast
  moreover have "\<forall>f \<in> set (first # rest). \<forall>k k'.
      iso_key (filed f) = Some k \<and> iso_key (filed ?r) = Some k' \<longrightarrow> k \<le> k'"
  proof (intro ballI allI impI)
    fix f k k'
    assume "f \<in> set (first # rest)" and "iso_key (filed f) = Some k \<and> iso_key (filed ?r) = Some k'"
    with ge iso_key_order [of "filed f" k "filed ?r" k'] show "k \<le> k'" by blast
  qed
  ultimately show ?thesis by blast
qed

theorem instant_selects_latest_filed_witness:
  "resolve_group 2022 [ex_first_filed, ex_restated, ex_amended] = Inr [ex_restated] \<and>
   filed ex_restated = ''2023-01-15'' \<and> val ex_restated = 120 \<and>
   iso_key (filed ex_restated) = Some (2023, 1, 15) \<and>
   iso_key (filed ex_amended) = Some (2022, 3, 1) \<and>
   extract_metric ex_facts ''Assets'' = Inr [ex_restated]"
proof -
  have h: "start ex_first_filed = None"
    by (simp add: ex_defs)
  show ?thesis
    using instant_selects_latest_filed [OF h, of 2022 "[ex_restated, ex_amended]"]
    by (simp add: ex_defs eval_defs iso_key_def digits_val_def digit_step_def)
qed

text \<open>
  Claim C10. The group of a fiscal year is the sublist of the filtered input with that
  year, in input order; in an instant-typed group the emitted record is the earliest
  record with the greatest filed date: every record before it was filed strictly
  earlier, no record after it was filed later.
\<close>

theorem instant_tie_first_in_input_order:
  assumes "get_year (group_by_year annual []) fiscalYear = first # rest"
    and "start first = None"
  shows "\<exists>r pre post. resolve_group fiscalYear (get_year (group_by_year annual []) fiscalYear) = Inr [r] \<and>
           filter (\<lambda>f. fy f = fiscalYear) annual = pre @ r # post \<and>
           (\<forall>f \<in> set pre. filed f < filed r) \<and> (\<forall>f \<in> set post. filed f \<le> filed r)"
proof -
  have g: "filter (\<lambda>f. fy f = fiscalYear) annual = first # rest"
    using assms(1) by (simp only: get_year_grouped)
  have "resolve_group fiscalYear (first # rest) = Inr [max_loop filed first rest]"
    using assms(2) by (rule resolve_group_instant)
  moreover from max_loop_split [where k=filed and best=first and xs=rest]
  obtain pre post where "first # rest = pre @ max_loop filed first rest # post"
    "\<forall>x \<in> set pre. filed x < filed (max_loop filed first rest)"
    "\<forall>x \<in> set post. filed x \<le> filed (max_loop filed first rest)"
    by blast
  ultimately show ?thesis unfolding assms(1) g by blast
qed

theorem instant_tie_first_in_input_order_witness:
  "get_year (group_by_year [ex_first_filed, ex_tie_a, ex_other_year, ex_tie_b] []) 2022 =
     [ex_first_filed, ex_tie_a, ex_tie_b] \<and>
   resolve_group 2022 [ex_first_filed, ex_tie_a, ex_tie_b] = Inr [ex_tie_a] \<and>
   filed ex_tie_a = filed ex_tie_b \<and> val ex_tie_a = 7 \<and> val ex_tie_b = 8"
proof -
  have h1: "get_year (group_by_year [ex_first_filed, ex_tie_a, ex_other_year, ex_tie_b] []) 2022 =
      ex_first_filed # [ex_tie_a, ex_tie_b]"
    by (simp add: ex_defs get_year_def)
  have h2: "start ex_first_filed = None"
    by (simp add: ex_defs)
  show ?thesis
    using instant_tie_first_in_input_order [OF h1 h2] by (simp add: ex_defs eval_defs)
qed

section \<open>Classification of a group\<close>




section \<open>The resolved series\<close>

text \<open>
  Claim C4. Whenever \<open>extract_metric\<close> returns a series, the series is strictly ascending
  by fiscal year, and so no two of its entries share a fiscal year.
\<close>

theorem resolved_series_strictly_ascending:
  assumes "extract_metric data metric_name = Inr results"
  shows "sorted_wrt (<) (map fy results) \<and> distinct (map fy results)"
proof -
  have "sorted_wrt (<) (map fy results)" using assms by (rule extract_metric_sorted)
  then show ?thesis by (simp add: strict_sorted_iff)
qed

theorem resolved_series_strictly_ascending_witness:
  "extract_metric ex_facts ''NetIncomeLoss'' = Inr [ex_2019, ex_2021] \<and>
   map fy [ex_2019, ex_2021] = [2019, 2021]"
proof -
  have h: "extract_metric ex_facts ''NetIncomeLoss'' = Inr [ex_2019, ex_2021]"
    by (simp add: ex_defs eval_defs)
  show ?thesis
    using h resolved_series_strictly_ascending [OF h] by (simp add: ex_defs)
qed

section \<open>Missing concept, missing unit\<close>

text \<open>
  Claim C8. When the concept is absent from the collection the lookup fails with
  \<open>KeyError\<close> naming the concept, and when the concept has no \<open>USD\<close> unit it fails with
  \<open>KeyError\<close> naming \<open>USD\<close> (and when the taxonomy itself is absent, with \<open>KeyError\<close>
  naming it); in each case \<open>extract_metric\<close> catches the failure and returns the empty
  series, and no exception reaches the caller.
\<close>

theorem missing_concept_or_unit_is_no_data:
  "(facts data ''us-gaap'' = Some gaap \<and> gaap metric_name = None \<longrightarrow>
      extract_metric_try data metric_name = Inl (KeyError metric_name) \<and>
      extract_metric data metric_name = Inr []) \<and>
   (facts data ''us-gaap'' = Some gaap \<and> gaap metric_name = Some c \<and> units c ''USD'' = None \<longrightarrow>
      extract_metric_try data metric_name = Inl (KeyError ''USD'') \<and>
      extract_metric data metric_name = Inr []) \<and>
   (facts data ''us-gaap'' = None \<longrightarrow>
      extract_metric_try data metric_name = Inl (KeyError ''us-gaap'') \<and>
      extract_metric data metric_name = Inr [])"
  by (simp add: extract_metric_def extract_metric_try_def lookup_filings_def)

theorem missing_concept_or_unit_is_no_data_witness:
  "extract_metric_try ex_facts ''Revenues'' = Inl (KeyError ''Revenues'') \<and>
   extract_metric ex_facts ''Revenues'' = Inr [] \<and>
   extract_metric_try ex_facts ''EarningsPerShareBasic'' = Inl (KeyError ''USD'') \<and>
   extract_metric ex_facts ''EarningsPerShareBasic'' = Inr []"
  using missing_concept_or_unit_is_no_data [of ex_facts "the (facts ex_facts ''us-gaap'')" "''Revenues''"]
    missing_concept_or_unit_is_no_data [of ex_facts "the (facts ex_facts ''us-gaap'')"
      "''EarningsPerShareBasic''" "\<lparr>label = ''Earnings Per Share, Basic'', units = [''USD/shares'' \<mapsto> []]\<rparr>"]
  by (simp add: ex_defs eval_defs)

section \<open>Malformed dates\<close>

text \<open>
  Claim C3 as stated fails: a record whose start date names a thirteenth month is not
  skipped. \<open>extract_metric\<close> raises \<open>ValueError\<close> for the whole concept, where skipping
  the record would have returned the records of 2019 and 2021.
\<close>

theorem malformed_date_not_skipped_counterexample:
  "extract_metric ex_malformed_facts ''NetIncomeLoss'' = Inl ValueError \<and>
   extract_metric ex_skipped_facts ''NetIncomeLoss'' = Inr [ex_2019, ex_2021]"
  by (simp add: ex_defs eval_defs)

text \<open>
  Claim C3, amended. For a duration-typed concept (every annual record carries a start
  date), when some annual record has a start or end date that cannot be parsed,
  \<open>extract_metric\<close> raises \<open>ValueError\<close>, which it does not catch: no record is skipped
  and no value is returned for any fiscal year.
\<close>

theorem malformed_date_aborts_extraction:
  assumes "lookup_filings data metric_name = Inr filings"
    and "\<forall>f \<in> set filings. is_annual f \<longrightarrow> start f \<noteq> None"
    and "\<exists>f \<in> set filings. is_annual f \<and> period_of f = None"
  shows "extract_metric data metric_name = Inl ValueError"
proof -
  let ?annual = "filter is_annual filings"
  let ?by = "group_by_year ?annual []"
  let ?ys = "sort (map fst ?by)"
  have ys: "set ?ys = fy ` set ?annual" by (rule years_set)
  have a: "\<forall>y \<in> set ?ys. get_year ?by y \<noteq> [] \<and> (\<forall>f \<in> set (get_year ?by y). start f \<noteq> None)"
  proof
    fix y assume "y \<in> set ?ys"
    with ys obtain f where "f \<in> set ?annual" "fy f = y" by auto
    then have "f \<in> set (filter (\<lambda>f. fy f = y) ?annual)" by simp
    then have "filter (\<lambda>f. fy f = y) ?annual \<noteq> []"
      by (metis empty_iff list.set(1))
    moreover have "\<forall>f \<in> set (filter (\<lambda>f. fy f = y) ?annual). start f \<noteq> None"
      using assms(2) by simp
    ultimately show "get_year ?by y \<noteq> [] \<and> (\<forall>f \<in> set (get_year ?by y). start f \<noteq> None)"
      unfolding get_year_grouped by blast
  qed
  from assms(3) obtain f where f: "f \<in> set filings" "is_annual f" "period_of f = None" by blast
  then have "f \<in> set (filter (\<lambda>g. fy g = fy f) ?annual)" by simp
  then have "f \<in> set (get_year ?by (fy f))" by (simp only: get_year_grouped)
  moreover from f have "fy f \<in> set ?ys" unfolding ys by simp
  ultimately have b: "\<exists>y \<in> set ?ys. \<exists>f \<in> set (get_year ?by y). period_of f = None"
    using f(3) by blast
  have "years_loop ?by ?ys [] = Inl ValueError" using a b by (rule years_loop_malformed)
  then have "extract_metric_try data metric_name = Inl ValueError"
    by (simp only: extract_metric_try_lookup [OF assms(1)])
  then show ?thesis by (simp add: extract_metric_def)
qed

theorem malformed_date_aborts_extraction_witness:
  "extract_metric ex_malformed_facts ''NetIncomeLoss'' = Inl ValueError \<and>
   period_of ex_bad_month = None \<and> start ex_bad_month = Some ''2019-13-01''"
proof -
  have h1: "lookup_filings ex_malformed_facts ''NetIncomeLoss'' = Inr [ex_2019, ex_bad_month, ex_2021]"
    by (simp add: ex_malformed_facts_def lookup_filings_def)
  have h2: "\<forall>f \<in> set [ex_2019, ex_bad_month, ex_2021]. is_annual f \<longrightarrow> start f \<noteq> None"
    by (simp add: ex_defs)
  have h3: "\<exists>f \<in> set [ex_2019, ex_bad_month, ex_2021]. is_annual f \<and> period_of f = None"
    by (simp add: ex_defs eval_defs)
  show ?thesis
    using malformed_date_aborts_extraction [OF h1 h2 h3] by (simp add: ex_defs eval_defs)
qed


section \<open>Year-over-year growth\<close>

lemma length_display_loop: "length (display_loop prev series) = length series"
  by (induction series arbitrary: prev) (simp_all add: Let_def)

lemma display_loop_growth:
  "i < length series \<Longrightarrow>
   row_growth (display_loop prev series ! i) =
     (case (if i = 0 then prev else Some (val (series ! (i - 1)))) of
        None \<Rightarrow> None
      | Some p \<Rightarrow> if p \<noteq> 0 then Some ((val (series ! i) - p) / \<bar>p\<bar> * 100) else None)"
proof (induction series arbitrary: prev i)
  case Nil
  then show ?case by simp
next
  case (Cons f series)
  show ?case
  proof (cases i)
    case 0
    then show ?thesis by (simp add: Let_def split: option.splits)
  next
    case (Suc j)
    with Cons.prems have "j < length series" by simp
    from Cons.IH [OF this, of "Some (val f)"] Suc show ?thesis
      by (cases j) (simp_all add: Let_def split: option.splits)
  qed
qed

text \<open>
  Claim C6. One line is printed for each entry of the series. The growth of the first
  entry is not applicable; the growth of a later entry is not applicable exactly when the
  previous value is zero, and otherwise it is (value - previous) / |previous| * 100. The
  series 100, -50, 0 has growths not applicable, -150 and +100.
\<close>

theorem growth_of_each_entry:
  "length (display_net_income series) = length series \<and>
   (\<forall>i < length series.
      row_growth (display_net_income series ! i) =
        (if i = 0 \<or> val (series ! (i - 1)) = 0 then None
         else Some ((val (series ! i) - val (series ! (i - 1))) / \<bar>val (series ! (i - 1))\<bar> * 100)))"
  by (simp add: display_net_income_def length_display_loop display_loop_growth)

theorem growth_of_each_entry_witness:
  "map row_growth (display_net_income ex_series) = [None, Some (- 150), Some 100, None] \<and>
   map row_year (display_net_income ex_series) = [2020, 2021, 2022, 2023]"
  using growth_of_each_entry [of ex_series]
  by (simp add: display_net_income_def ex_series_def annual_report_def Let_def)


section \<open>The combined table\<close>

lemma collect_frames_eq:
  "collect_frames data metrics dfs = Inr out \<Longrightarrow> out = dfs @ frames_of data metrics"
proof (induction metrics arbitrary: dfs)
  case Nil
  then show ?case by (simp add: frames_of_def)
next
  case (Cons m metrics)
  obtain name concept where m: "m = (name, concept)" by (cases m)
  from Cons.prems m obtain results where r: "extract_metric data concept = Inr results"
    and c: "collect_frames data metrics
              (if results \<noteq> [] then dfs @ [frame_of name results] else dfs) = Inr out"
    by (auto split: sum.splits)
  from Cons.IH [OF c] r m show ?case
    by (simp add: frames_of_def)
qed

lemma frames_of_mem:
  "(name, concept) \<in> set metrics \<Longrightarrow> extract_metric data concept = Inr results \<Longrightarrow>
   results \<noteq> [] \<Longrightarrow> frame_of name results \<in> set (frames_of data metrics)"
  by (force simp: frames_of_def)

lemma columns_frame_of: "columns (frame_of name results) = [name]"
  by (simp add: frame_of_def)

lemma fiscal_year_frame_of: "fiscal_year (frame_of name results) = map fy results"
  by (simp add: frame_of_def)

lemma cells_frame_of:
  "cells (frame_of name results) y name = map_of (map (\<lambda>f. (fy f, val f)) results) y"
  by (simp add: frame_of_def)

lemma columns_frames_of:
  "concat (map columns (frames_of data metrics)) =
     map fst (filter (\<lambda>(name, concept). \<exists>results. extract_metric data concept = Inr results \<and> results \<noteq> []) metrics)"
proof (induction metrics)
  case Nil
  then show ?case by (simp add: frames_of_def)
next
  case (Cons m metrics)
  obtain name concept where m: "m = (name, concept)" by (cases m)
  from Cons show ?case
    by (cases "extract_metric data concept") (simp_all add: frames_of_def m columns_frame_of)
qed

lemma distinct_columns_frames_of:
  "distinct (map fst metrics) \<Longrightarrow> distinct (concat (map columns (frames_of data metrics)))"
  unfolding columns_frames_of by (rule distinct_map_filter)

lemma map_of_series_None:
  "y \<notin> fy ` set results \<Longrightarrow> map_of (map (\<lambda>f. (fy f, val f)) results) y = None"
  by (simp add: map_of_eq_None_iff image_image)

lemma map_of_series_Some:
  "distinct (map fy results) \<Longrightarrow> a \<in> set results \<Longrightarrow>
   map_of (map (\<lambda>f. (fy f, val f)) results) (fy a) = Some (val a)"
  by (rule map_of_is_SomeI) (auto simp: comp_def)

lemma column_in_concat:
  "f \<in> set fs \<Longrightarrow> n \<in> set (columns f) \<Longrightarrow> n \<in> set (concat (map columns fs))"
  by auto

text \<open>Merging from left to right keeps every column and every fiscal year, and a cell of
  a metric's column is that metric's value of the year, or missing.\<close>

lemma foldl_merge_outer_props:
  assumes "distinct (concat (map columns (d # ds)))"
  shows "columns (foldl merge_outer d ds) = concat (map columns (d # ds)) \<and>
         set (fiscal_year (foldl merge_outer d ds)) = (\<Union>f \<in> set (d # ds). set (fiscal_year f)) \<and>
         (\<forall>name results y. frame_of name results \<in> set (d # ds) \<longrightarrow>
            cells (foldl merge_outer d ds) y name = map_of (map (\<lambda>f. (fy f, val f)) results) y)"
  using assms
proof (induction ds rule: rev_induct)
  case Nil
  show ?case
  proof (intro conjI allI impI)
    fix name results y
    assume "frame_of name results \<in> set (d # [])"
    then have "d = frame_of name results" by simp
    then show "cells (foldl merge_outer d []) y name = map_of (map (\<lambda>f. (fy f, val f)) results) y"
      by (simp add: cells_frame_of)
  qed simp_all
next
  case (snoc g ds)
  let ?F = "foldl merge_outer d ds"
  from snoc.prems have dist: "distinct (concat (map columns (d # ds)))"
    and disj: "set (columns g) \<inter> set (concat (map columns (d # ds))) = {}"
    by auto
  from snoc.IH [OF dist] have cols: "columns ?F = concat (map columns (d # ds))"
    and yrs: "set (fiscal_year ?F) = (\<Union>f \<in> set (d # ds). set (fiscal_year f))"
    and cel: "\<And>name results y. frame_of name results \<in> set (d # ds) \<Longrightarrow>
            cells ?F y name = map_of (map (\<lambda>f. (fy f, val f)) results) y"
    by blast+
  have F': "foldl merge_outer d (ds @ [g]) = merge_outer ?F g" by simp
  show ?case
  proof (intro conjI allI impI)
    show "columns (foldl merge_outer d (ds @ [g])) = concat (map columns (d # ds @ [g]))"
      unfolding F' by (simp add: merge_outer_def cols)
    show "set (fiscal_year (foldl merge_outer d (ds @ [g]))) =
        (\<Union>f \<in> set (d # ds @ [g]). set (fiscal_year f))"
      unfolding F' by (auto simp add: merge_outer_def yrs)
  next
    fix name results y
    assume mem: "frame_of name results \<in> set (d # ds @ [g])"
    show "cells (foldl merge_outer d (ds @ [g])) y name =
        map_of (map (\<lambda>f. (fy f, val f)) results) y"
    proof (cases "frame_of name results \<in> set (d # ds)")
      case True
      then have "name \<in> set (columns ?F)"
        unfolding cols using columns_frame_of [of name results] by force
      moreover have "y \<notin> set (fiscal_year ?F) \<Longrightarrow> map_of (map (\<lambda>f. (fy f, val f)) results) y = None"
      proof -
        assume "y \<notin> set (fiscal_year ?F)"
        with True have "y \<notin> set (fiscal_year (frame_of name results))"
          unfolding yrs by blast
        then show ?thesis
          by (simp add: fiscal_year_frame_of map_of_series_None)
      qed
      ultimately show ?thesis
        unfolding F' using cel [OF True] by (simp add: merge_outer_def)
    next
      case False
      with mem have g: "g = frame_of name results" by simp
      with disj have "name \<notin> set (columns ?F)"
        unfolding cols by (simp add: columns_frame_of)
      moreover have "y \<notin> set (fiscal_year g) \<Longrightarrow> map_of (map (\<lambda>f. (fy f, val f)) results) y = None"
        unfolding g by (simp add: fiscal_year_frame_of map_of_series_None)
      ultimately show ?thesis
        unfolding F' by (simp add: merge_outer_def g cells_frame_of)
    qed
  qed
qed

lemma combine_metrics_frames:
  assumes "combine_metrics data metrics = Inr (Some df)"
  shows "\<exists>d ds. frames_of data metrics = d # ds \<and> df = sort_values (foldl merge_outer d ds)"
proof -
  from assms obtain out where c: "collect_frames data metrics [] = Inr out"
    by (auto simp: combine_metrics_def split: sum.splits)
  from collect_frames_eq [OF c] have "out = frames_of data metrics" by simp
  with assms c show ?thesis
    by (auto simp: combine_metrics_def split: list.splits)
qed

section \<open>Profit margins\<close>

lemmas margin_defs = combine_metrics_def METRICS_def display_summary_margins_def tail_def
  margin_def merge_outer_def sort_values_def frame_of_def ex_margin_facts_def
  ex_net_income_series_def ex_revenue_series_def

text \<open>
  Claim C7 as stated fails. With net income for 2019 to 2021 and revenue for 2020 to 2022
  the summary prints a margin line for each of 2019, 2020, 2021 and 2022, not only for
  2020 and 2021; the lines of 2019 and 2022 carry \<open>NaN\<close>.
\<close>

theorem margins_not_inner_join_counterexample:
  "extract_metric ex_margin_facts ''NetIncomeLoss'' = Inr ex_net_income_series \<and>
   map fy ex_net_income_series = [2019, 2020, 2021] \<and>
   extract_metric ex_margin_facts ''RevenueFromContractWithCustomerExcludingAssessedTax'' =
     Inr ex_revenue_series \<and>
   map fy ex_revenue_series = [2020, 2021, 2022] \<and>
   map_sum id (map_option display_summary_margins) (combine_metrics ex_margin_facts METRICS) =
     Inr (Some [(2019, NaN), (2020, Num 10), (2021, Num 10), (2022, NaN)])"
  by (simp add: margin_defs ex_defs eval_defs)

text \<open>
  Claim C7, amended. The combined table is an outer join: it has a row for every fiscal
  year of the net-income series and of the revenue series. The summary prints one margin
  line for each of the last five rows of the table. On such a line, a year that is missing
  from either series has the margin \<open>NaN\<close>: it is neither left out nor treated as zero. A
  year present in both series, with revenue that is not zero, has the margin net income
  / revenue * 100.
\<close>

theorem margins_over_outer_join:
  assumes "distinct (map fst metrics)"
    and "(''net_income'', c_ni) \<in> set metrics" and "(''revenue'', c_rev) \<in> set metrics"
    and "extract_metric data c_ni = Inr nis" and "nis \<noteq> []"
    and "extract_metric data c_rev = Inr revs" and "revs \<noteq> []"
    and "combine_metrics data metrics = Inr (Some df)"
  shows "fy ` set nis \<union> fy ` set revs \<subseteq> set (fiscal_year df) \<and>
         map fst (display_summary_margins df) = tail 5 (fiscal_year df) \<and>
         (\<forall>(y, m) \<in> set (display_summary_margins df).
            (y \<notin> fy ` set nis \<or> y \<notin> fy ` set revs \<longrightarrow> m = NaN) \<and>
            (\<forall>a \<in> set nis. \<forall>b \<in> set revs. fy a = y \<and> fy b = y \<and> val b \<noteq> 0 \<longrightarrow>
               m = Num (val a / val b * 100)))"
proof -
  from combine_metrics_frames [OF assms(8)] obtain d ds where
    fr: "frames_of data metrics = d # ds" and df: "df = sort_values (foldl merge_outer d ds)"
    by blast
  let ?F = "foldl merge_outer d ds"
  have dist: "distinct (concat (map columns (d # ds)))"
    using distinct_columns_frames_of [OF assms(1), of data] unfolding fr .
  have m_ni: "frame_of ''net_income'' nis \<in> set (d # ds)"
    using frames_of_mem [OF assms(2,4,5)] unfolding fr .
  have m_rev: "frame_of ''revenue'' revs \<in> set (d # ds)"
    using frames_of_mem [OF assms(3,6,7)] unfolding fr .
  from foldl_merge_outer_props [OF dist] have
    cols: "columns ?F = concat (map columns (d # ds))"
    and yrs: "set (fiscal_year ?F) = (\<Union>f \<in> set (d # ds). set (fiscal_year f))"
    and cel: "\<And>name results y. frame_of name results \<in> set (d # ds) \<Longrightarrow>
            cells ?F y name = map_of (map (\<lambda>f. (fy f, val f)) results) y"
    by blast+
  have cdf: "columns df = concat (map columns (d # ds))"
    unfolding df sort_values_def by (simp add: cols)
  have "''net_income'' \<in> set (columns (frame_of ''net_income'' nis))"
    by (simp add: columns_frame_of)
  with m_ni have c_ni: "''net_income'' \<in> set (columns df)"
    unfolding cdf by (rule column_in_concat)
  have "''revenue'' \<in> set (columns (frame_of ''revenue'' revs))"
    by (simp add: columns_frame_of)
  with m_rev have c_rev: "''revenue'' \<in> set (columns df)"
    unfolding cdf by (rule column_in_concat)
  have cells_ni: "cells df y ''net_income'' = map_of (map (\<lambda>f. (fy f, val f)) nis) y" for y
    unfolding df sort_values_def using cel [OF m_ni] by simp
  have cells_rev: "cells df y ''revenue'' = map_of (map (\<lambda>f. (fy f, val f)) revs) y" for y
    unfolding df sort_values_def using cel [OF m_rev] by simp
  have marg: "display_summary_margins df =
      map (\<lambda>y. (y, margin (map_of (map (\<lambda>f. (fy f, val f)) nis) y)
                          (map_of (map (\<lambda>f. (fy f, val f)) revs) y))) (tail 5 (fiscal_year df))"
    unfolding display_summary_margins_def Let_def using c_ni c_rev
    by (simp add: cells_ni cells_rev)
  have d_ni: "distinct (map fy nis)"
    using extract_metric_sorted [OF assms(4)] by (simp add: strict_sorted_iff)
  have d_rev: "distinct (map fy revs)"
    using extract_metric_sorted [OF assms(6)] by (simp add: strict_sorted_iff)
  have "set (fiscal_year df) = set (fiscal_year ?F)"
    unfolding df sort_values_def by simp
  then have p1: "fy ` set nis \<union> fy ` set revs \<subseteq> set (fiscal_year df)"
    unfolding yrs using m_ni m_rev fiscal_year_frame_of [of "''net_income''" nis]
      fiscal_year_frame_of [of "''revenue''" revs]
    by (metis (no_types, lifting) UN_upper Un_least set_map)
  have p2: "map fst (display_summary_margins df) = tail 5 (fiscal_year df)"
    unfolding marg by (simp add: comp_def)
  have p3: "\<forall>(y, m) \<in> set (display_summary_margins df).
            (y \<notin> fy ` set nis \<or> y \<notin> fy ` set revs \<longrightarrow> m = NaN) \<and>
            (\<forall>a \<in> set nis. \<forall>b \<in> set revs. fy a = y \<and> fy b = y \<and> val b \<noteq> 0 \<longrightarrow>
               m = Num (val a / val b * 100))"
  proof (clarify, intro conjI impI ballI)
    fix y m
    assume ym: "(y, m) \<in> set (display_summary_margins df)"
    then have m: "m = margin (map_of (map (\<lambda>f. (fy f, val f)) nis) y)
                          (map_of (map (\<lambda>f. (fy f, val f)) revs) y)"
      unfolding marg by auto
    {
      assume "y \<notin> fy ` set nis \<or> y \<notin> fy ` set revs"
      then show "m = NaN"
      proof
        assume "y \<notin> fy ` set nis"
        then have "map_of (map (\<lambda>f. (fy f, val f)) nis) y = None"
          by (rule map_of_series_None)
        then show ?thesis unfolding m by (simp add: margin_def)
      next
        assume "y \<notin> fy ` set revs"
        then have "map_of (map (\<lambda>f. (fy f, val f)) revs) y = None"
          by (rule map_of_series_None)
        then show ?thesis unfolding m by (simp add: margin_def split: option.splits)
      qed
    }
    {
      fix a b
      assume a: "a \<in> set nis" and b: "b \<in> set revs"
        and e: "fy a = y \<and> fy b = y \<and> val b \<noteq> 0"
      have "map_of (map (\<lambda>f. (fy f, val f)) nis) (fy a) = Some (val a)"
        using d_ni a by (rule map_of_series_Some)
      moreover have "map_of (map (\<lambda>f. (fy f, val f)) revs) (fy b) = Some (val b)"
        using d_rev b by (rule map_of_series_Some)
      ultimately have "map_of (map (\<lambda>f. (fy f, val f)) nis) y = Some (val a)"
        "map_of (map (\<lambda>f. (fy f, val f)) revs) y = Some (val b)"
        using e by simp_all
      then show "m = Num (val a / val b * 100)" unfolding m using e by (simp add: margin_def)
    }
  qed
  from p1 p2 p3 show ?thesis by blast
qed

theorem margins_over_outer_join_witness:
  "display_summary_margins
     (sort_values (foldl merge_outer (frame_of ''net_income'' ex_net_income_series)
        [frame_of ''revenue'' ex_revenue_series])) =
     [(2019, NaN), (2020, Num 10), (2021, Num 10), (2022, NaN)]"
proof -
  let ?rev = "''RevenueFromContractWithCustomerExcludingAssessedTax''"
  have h1: "distinct (map fst METRICS)"
    by (simp add: METRICS_def)
  have h2: "(''net_income'', ''NetIncomeLoss'') \<in> set METRICS"
    by (simp add: METRICS_def)
  have h3: "(''revenue'', ?rev) \<in> set METRICS"
    by (simp add: METRICS_def)
  have h4: "extract_metric ex_margin_facts ''NetIncomeLoss'' = Inr ex_net_income_series"
    by (simp add: margin_defs ex_defs eval_defs)
  have h5: "ex_net_income_series \<noteq> []"
    by (simp add: ex_net_income_series_def)
  have h6: "extract_metric ex_margin_facts ?rev = Inr ex_revenue_series"
    by (simp add: margin_defs ex_defs eval_defs)
  have h7: "ex_revenue_series \<noteq> []"
    by (simp add: ex_revenue_series_def)
  have h0: "extract_metric ex_margin_facts ''Assets'' = Inr []"
    by (simp add: margin_defs ex_defs eval_defs)
  have h8: "combine_metrics ex_margin_facts METRICS =
      Inr (Some (sort_values (foldl merge_outer (frame_of ''net_income'' ex_net_income_series)
        [frame_of ''revenue'' ex_revenue_series])))"
    by (simp add: combine_metrics_def METRICS_def h4 h5 h6 h7 h0)
  show ?thesis
    using margins_over_outer_join [OF h1 h2 h3 h4 h5 h6 h7 h8]
    by (simp add: display_summary_margins_def tail_def margin_def merge_outer_def sort_values_def
        frame_of_def ex_net_income_series_def ex_revenue_series_def annual_report_def)
qed

end
